theory Spec2Isabelle
  imports Main "HOL-Library.Word" "HOL-Library.Sublist"
begin

unbundle bit_operations_syntax

section \<open>The typed-option parser of \<^verbatim>\<open>cxx_argp\<close>\<close>

text \<open>
  The repository holds two editions of the header. Names ending in \<open>_A\<close> embed
  \<^verbatim>\<open>src/cxx_argp_parser.h\<close> (converters of type \<^verbatim>\<open>bool(const char *)\<close>, a
  \<^verbatim>\<open>counter_\<close> member, the registry consulted before the lifecycle keys); names ending
  in \<open>_B\<close> embed \<^verbatim>\<open>src/unnamed/part_000\<close> (converters of type \<^verbatim>\<open>arg_parser\<close> that
  report to the engine themselves, the lifecycle keys consulted before the registry).
  A member \<^verbatim>\<open>name_\<close> of the class is the field \<open>name_A\<close> or \<open>name_B\<close> of the
  record.

  A pointer \<^verbatim>\<open>const char *arg\<close> is a \<^typ>\<open>string option\<close>: \<open>None\<close> is the null
  pointer, which the engine passes with every lifecycle event and with an option that
  has no value, and \<open>Some\<close> holds the characters before the terminating NUL. Where the
  source hands the pointer to \<^verbatim>\<open>strtol\<close> or to the constructor of \<^verbatim>\<open>std::string\<close>, a
  null pointer is undefined behaviour; there the model reads the text with
  \<^const>\<open>the\<close>, which says nothing about the null pointer.
\<close>

subsection \<open>Text to number: \<^verbatim>\<open>strtol\<close>, \<^verbatim>\<open>std::stol\<close>, \<^verbatim>\<open>std::stoi\<close>\<close>

text \<open>
  The converters call the C library. \<^verbatim>\<open>strtol(nptr, &end, base)\<close> is modelled after
  ISO C: it skips white space, takes an optional sign, for base 0 or 16 an optional
  \<^verbatim>\<open>0x\<close>/\<^verbatim>\<open>0X\<close> that is followed by a hexadecimal digit, for base 0 reads a leading
  \<^verbatim>\<open>0\<close> as octal, then takes the longest run of digits of the base. Without a digit
  nothing is converted, the value is 0 and \<^verbatim>\<open>end\<close> is \<^verbatim>\<open>nptr\<close>. A value outside
  \<^verbatim>\<open>long\<close> is clamped and \<^verbatim>\<open>errno\<close> becomes \<^verbatim>\<open>ERANGE\<close>. The result is the value, the
  text \<^verbatim>\<open>end\<close> points to, and whether \<^verbatim>\<open>errno\<close> is \<^verbatim>\<open>ERANGE\<close>.
\<close>

definition isspace :: "char \<Rightarrow> bool" where
  "isspace c =
     (c = CHR '' '' \<or> c = CHR 0x09 \<or> c = CHR 0x0A \<or> c = CHR 0x0B \<or> c = CHR 0x0C \<or> c = CHR 0x0D)"

definition digit_value :: "char \<Rightarrow> nat option" where
  "digit_value c =
     (let n = (of_char c :: nat)
      in if 48 \<le> n \<and> n \<le> 57 then Some (n - 48)
         else if 97 \<le> n \<and> n \<le> 122 then Some (n - 87)
         else if 65 \<le> n \<and> n \<le> 90 then Some (n - 55)
         else None)"

definition in_base :: "nat \<Rightarrow> char \<Rightarrow> bool" where
  "in_base b c = (case digit_value c of None \<Rightarrow> False | Some d \<Rightarrow> d < b)"

fun digits_value :: "nat \<Rightarrow> int \<Rightarrow> string \<Rightarrow> int" where
  "digits_value b acc [] = acc"
| "digits_value b acc (c # cs) =
     digits_value b (acc * int b + (case digit_value c of None \<Rightarrow> 0 | Some d \<Rightarrow> int d)) cs"

definition LONG_MAX :: int where
  "LONG_MAX = 2 ^ 63 - 1"

definition LONG_MIN :: int where
  "LONG_MIN = - (2 ^ 63)"

definition INT_MAX :: int where
  "INT_MAX = 2 ^ 31 - 1"

definition INT_MIN :: int where
  "INT_MIN = - (2 ^ 31)"

definition is_sign :: "char \<Rightarrow> bool" where
  "is_sign c = (c = CHR ''-'' \<or> c = CHR ''+'')"

definition skip_sign :: "string \<Rightarrow> string" where
  "skip_sign s = (case s of [] \<Rightarrow> [] | c # cs \<Rightarrow> if is_sign c then cs else c # cs)"

definition negative :: "string \<Rightarrow> bool" where
  "negative s = (case s of [] \<Rightarrow> False | c # cs \<Rightarrow> c = CHR ''-'')"

definition hex_prefix :: "string \<Rightarrow> bool" where
  "hex_prefix s =
     (case s of
        z # x # h # rest \<Rightarrow> z = CHR ''0'' \<and> (x = CHR ''x'' \<or> x = CHR ''X'') \<and> in_base 16 h
      | _ \<Rightarrow> False)"

definition strtol :: "string \<Rightarrow> nat \<Rightarrow> int \<times> string \<times> bool" where
  "strtol nptr base =
     (let s = skip_sign (dropWhile isspace nptr);
          neg = negative (dropWhile isspace nptr);
          hex = ((base = 0 \<or> base = 16) \<and> hex_prefix s);
          b = (if hex then 16
               else if base = 0 then (if take 1 s = ''0'' then 8 else 10)
               else base);
          body = (if hex then drop 2 s else s);
          ds = takeWhile (in_base b) body;
          n = digits_value b 0 ds
      in if ds = [] then (0, nptr, False)
         else if neg then
           (if - n < LONG_MIN then (LONG_MIN, dropWhile (in_base b) body, True)
            else (- n, dropWhile (in_base b) body, False))
         else
           (if LONG_MAX < n then (LONG_MAX, dropWhile (in_base b) body, True)
            else (n, dropWhile (in_base b) body, False)))"

text \<open>
  \<^verbatim>\<open>std::stol(str)\<close> and \<^verbatim>\<open>std::stoi(str)\<close> (no position pointer, base 10) call
  \<^verbatim>\<open>strtol(str, &end, 10)\<close>; they throw \<^verbatim>\<open>std::invalid_argument\<close> when nothing was
  converted (\<^verbatim>\<open>end == str\<close>) and \<^verbatim>\<open>std::out_of_range\<close> on \<^verbatim>\<open>ERANGE\<close>, for
  \<^verbatim>\<open>stoi\<close> also when the value does not fit \<^verbatim>\<open>int\<close>. Text after the number is not
  looked at. A conversion consumes at least one character, so \<^verbatim>\<open>end == str\<close> is the
  equality of the remaining text with the whole text.
\<close>

datatype exn = Invalid_argument | Out_of_range

definition stol :: "string \<Rightarrow> exn + int" where
  "stol str =
     (case strtol str 10 of (v, endp, erange) \<Rightarrow>
        if endp = str then Inl Invalid_argument
        else if erange then Inl Out_of_range
        else Inr v)"

definition stoi :: "string \<Rightarrow> exn + int" where
  "stoi str =
     (case strtol str 10 of (v, endp, erange) \<Rightarrow>
        if endp = str then Inl Invalid_argument
        else if erange \<or> v < INT_MIN \<or> INT_MAX < v then Inl Out_of_range
        else Inr v)"

text \<open>\<^verbatim>\<open>err.what()\<close> of either exception, as the standard library words it.\<close>

definition what :: "string \<Rightarrow> exn \<Rightarrow> string" where
  "what fname e = fname"

subsection \<open>\<^verbatim>\<open>getline(s, val, ',')\<close>\<close>

text \<open>
  One call on the unread text of the stream: at end of input nothing is extracted and the
  stream fails (the loop ends); otherwise the characters before the next delimiter are
  the piece, and the delimiter, when there is one, is consumed.
\<close>

definition getline :: "string \<Rightarrow> char \<Rightarrow> (string \<times> string) option" where
  "getline s delim =
     (if s = [] then None
      else Some (takeWhile (\<lambda>c. c \<noteq> delim) s, drop 1 (dropWhile (\<lambda>c. c \<noteq> delim) s)))"

lemma getline_shorter:
  "getline s delim = Some (val, rest) \<Longrightarrow> length rest < length s"
proof -
  assume g: "getline s delim = Some (val, rest)"
  then have ne: "s \<noteq> []" and r: "rest = drop 1 (dropWhile (\<lambda>c. c \<noteq> delim) s)"
    by (auto simp: getline_def split: if_splits)
  have "length (dropWhile (\<lambda>c. c \<noteq> delim) s) \<le> length s"
    by (rule length_dropWhile_le)
  then show ?thesis using ne r by (cases "dropWhile (\<lambda>c. c \<noteq> delim) s") (auto simp: neq_Nil_conv)
qed

text \<open>All the pieces the loop \<^verbatim>\<open>while (getline(s, val, ','))\<close> sees, in order.\<close>

function pieces :: "string \<Rightarrow> string list" where
  "pieces s = (case getline s CHR '','' of None \<Rightarrow> [] | Some (val, rest) \<Rightarrow> val # pieces rest)"
  by pat_completeness auto
termination
  by (relation "measure length") (auto dest: getline_shorter)

declare pieces.simps [simp del]


subsection \<open>The engine: \<^verbatim>\<open>argp\<close> of the C library\<close>

text \<open>
  The engine is outside the repository. What the parser asks of it is recorded as a list
  of calls: \<^verbatim>\<open>argp_error(state, fmt, ...)\<close> with its formatted message,
  \<^verbatim>\<open>argp_failure(state, status, errnum, fmt, ...)\<close> with the exit status, the error
  number and the message, and \<^verbatim>\<open>argp_help(&argp, stderr, ARGP_HELP_USAGE, argv[0])\<close>.
  The key of an event is an \<^verbatim>\<open>int\<close>; the reserved keys, the flag bits and the error
  numbers are those of \<^verbatim>\<open>argp.h\<close> and \<^verbatim>\<open>errno.h\<close>.
\<close>

datatype engine_call =
  Argp_error string
| Argp_failure int int string
| Argp_help

definition ARGP_KEY_ARG :: int where
  "ARGP_KEY_ARG = 0"

definition ARGP_KEY_ARGS :: int where
  "ARGP_KEY_ARGS = 0x1000006"

definition ARGP_KEY_END :: int where
  "ARGP_KEY_END = 0x1000001"

definition ARGP_KEY_NO_ARGS :: int where
  "ARGP_KEY_NO_ARGS = 0x1000002"

definition ARGP_KEY_INIT :: int where
  "ARGP_KEY_INIT = 0x1000003"

definition ARGP_KEY_SUCCESS :: int where
  "ARGP_KEY_SUCCESS = 0x1000004"

definition ARGP_KEY_ERROR :: int where
  "ARGP_KEY_ERROR = 0x1000005"

definition ARGP_KEY_FINI :: int where
  "ARGP_KEY_FINI = 0x1000007"

definition ARGP_NO_ERRS :: "32 word" where
  "ARGP_NO_ERRS = 0x02"

definition ARGP_NO_ARGS :: "32 word" where
  "ARGP_NO_ARGS = 0x04"

definition ARGP_IN_ORDER :: "32 word" where
  "ARGP_IN_ORDER = 0x08"

definition ARGP_NO_HELP :: "32 word" where
  "ARGP_NO_HELP = 0x10"

definition ARGP_NO_EXIT :: "32 word" where
  "ARGP_NO_EXIT = 0x20"

text \<open>
  \<^verbatim>\<open>ARGP_ERR_UNKNOWN\<close>, the status by which a callback says that it does not know a
  key, and the status the engine returns for a command line it rejects.
\<close>

definition EBADKEY :: int where
  "EBADKEY = 7"

definition EINVAL :: int where
  "EINVAL = 22"

text \<open>The exit status of a usage error: \<^verbatim>\<open>argp_err_exit_status\<close>, by default \<^verbatim>\<open>EX_USAGE\<close>.\<close>

definition argp_err_exit_status :: int where
  "argp_err_exit_status = 64"

text \<open>
  Whether the process ends, and with which status, under the flags the parse was started
  with. A usage error, reported by the engine itself or through \<^verbatim>\<open>argp_error\<close>, is
  silent under \<^verbatim>\<open>ARGP_NO_ERRS\<close>; otherwise a message is printed and, unless
  \<^verbatim>\<open>ARGP_NO_EXIT\<close> is set, the process exits with \<^verbatim>\<open>argp_err_exit_status\<close>
  (\<^verbatim>\<open>ARGP_NO_HELP\<close> has no part in it). \<^verbatim>\<open>argp_failure\<close> does nothing under
  \<^verbatim>\<open>ARGP_NO_ERRS\<close>; otherwise it prints and, for a status other than 0 and unless
  \<^verbatim>\<open>ARGP_NO_EXIT\<close> is set, exits with that status. \<^verbatim>\<open>argp_help\<close> with
  \<^verbatim>\<open>ARGP_HELP_USAGE\<close> only prints.
\<close>

definition usage_error :: "32 word \<Rightarrow> int option" where
  "usage_error fl =
     (if fl AND ARGP_NO_ERRS = 0 \<and> fl AND ARGP_NO_EXIT = 0 then Some argp_err_exit_status
      else None)"

definition engine_exit :: "32 word \<Rightarrow> engine_call \<Rightarrow> int option" where
  "engine_exit fl c =
     (case c of
        Argp_error msg \<Rightarrow> usage_error fl
      | Argp_failure status errnum msg \<Rightarrow>
          if fl AND ARGP_NO_ERRS = 0 \<and> status \<noteq> 0 \<and> fl AND ARGP_NO_EXIT = 0
          then Some status else None
      | Argp_help \<Rightarrow> None)"

fun first_exit :: "32 word \<Rightarrow> engine_call list \<Rightarrow> int option" where
  "first_exit fl [] = None"
| "first_exit fl (c # cs) =
     (case engine_exit fl c of Some code \<Rightarrow> Some code | None \<Rightarrow> first_exit fl cs)"

text \<open>
  The command line. Matching the elements of \<^verbatim>\<open>argv\<close> against the option table is
  \<^verbatim>\<open>getopt\<close>'s business, so an invocation is given by what \<^verbatim>\<open>getopt\<close> makes of the
  elements after the program name, in their order: an option of the table, by its key
  and with its value (none for an option that takes none); a positional argument; or an
  element the engine rejects itself, an option that is not in the table or one that
  lacks the value it requires. The options \<^verbatim>\<open>--help\<close> and \<^verbatim>\<open>--usage\<close>, which the
  engine answers without the callback, are not among them.
\<close>

datatype token = Option int "string option" | Argument string | Unrecognized

definition is_Argument :: "token \<Rightarrow> bool" where
  "is_Argument t = (case t of Argument a \<Rightarrow> True | _ \<Rightarrow> False)"

text \<open>
  The order in which the engine goes through the command line. By default \<^verbatim>\<open>getopt\<close>
  permutes: all options first, then the positional arguments. With \<^verbatim>\<open>ARGP_IN_ORDER\<close>
  the elements are taken as they stand. With \<^verbatim>\<open>ARGP_NO_ARGS\<close> (and not
  \<^verbatim>\<open>ARGP_IN_ORDER\<close>) the options before the first positional argument are taken, and
  a positional argument is a usage error (``Too many arguments'').
\<close>

definition schedule :: "32 word \<Rightarrow> token list \<Rightarrow> token list" where
  "schedule fl toks =
     (if fl AND ARGP_IN_ORDER \<noteq> 0 then toks
      else if fl AND ARGP_NO_ARGS \<noteq> 0
      then takeWhile (\<lambda>t. \<not> is_Argument t) toks @
           (if list_ex is_Argument toks then [Unrecognized] else [])
      else filter (\<lambda>t. \<not> is_Argument t) toks @ filter is_Argument toks)"

text \<open>
  A run either ends the process (\<open>Exited\<close> with the exit status) or returns a result,
  the state it leaves and the calls made to the engine. \<open>call\<close> is one invocation of
  the callback: the process ends at the first of its calls that makes the engine exit.
\<close>

datatype ('r, 's) run = Exited int | Returned 'r 's "engine_call list"

type_synonym 's callback = "int \<Rightarrow> string option \<Rightarrow> 's \<Rightarrow> int \<times> 's \<times> engine_call list"

definition call ::
  "'s callback \<Rightarrow> 32 word \<Rightarrow> int \<Rightarrow> string option \<Rightarrow> 's \<Rightarrow> engine_call list \<Rightarrow> (int, 's) run" where
  "call cb fl key arg s log =
     (case cb key arg s of (status, s', calls) \<Rightarrow>
        (case first_exit fl calls of
           Some code \<Rightarrow> Exited code
         | None \<Rightarrow> Returned status s' (log @ calls)))"

text \<open>
  The loop over the command line (\<^verbatim>\<open>parser_parse_next\<close>), with the number of positional
  arguments the callback has taken. An option is delivered under its key; a callback
  that answers \<^verbatim>\<open>EBADKEY\<close> to an option of the table, and an element the engine
  rejects, are usage errors, and any other status than 0 ends the loop with that status.
  A positional argument is delivered under \<^verbatim>\<open>ARGP_KEY_ARG\<close>; if the callback answers
  \<^verbatim>\<open>EBADKEY\<close> the engine offers all remaining arguments at once under
  \<^verbatim>\<open>ARGP_KEY_ARGS\<close>, and status 0 there consumes the rest of the command line.
\<close>

fun scan ::
  "'s callback \<Rightarrow> 32 word \<Rightarrow> token list \<Rightarrow> nat \<Rightarrow> 's \<Rightarrow> engine_call list \<Rightarrow> (int \<times> nat, 's) run" where
  "scan cb fl [] n s log = Returned (0, n) s log"
| "scan cb fl (Unrecognized # ts) n s log = Returned (EBADKEY, n) s log"
| "scan cb fl (Option key arg # ts) n s log =
     (case call cb fl key arg s log of
        Exited code \<Rightarrow> Exited code
      | Returned status s' log' \<Rightarrow>
          if status = 0 then scan cb fl ts n s' log' else Returned (status, n) s' log')"
| "scan cb fl (Argument a # ts) n s log =
     (case call cb fl ARGP_KEY_ARG (Some a) s log of
        Exited code \<Rightarrow> Exited code
      | Returned status s' log' \<Rightarrow>
          if status = 0 then scan cb fl ts (Suc n) s' log'
          else if status = EBADKEY then
            (case call cb fl ARGP_KEY_ARGS None s' log' of
               Exited code \<Rightarrow> Exited code
             | Returned status' s'' log'' \<Rightarrow>
                 if status' = 0 then Returned (0, Suc n) s'' log''
                 else Returned (status', n) s'' log'')
          else Returned (status, n) s' log')"

text \<open>
  The end of a parse (\<^verbatim>\<open>parser_finalize\<close>). \<^verbatim>\<open>ARGP_KEY_FINI\<close> is always delivered and
  its status ignored; \<^verbatim>\<open>EBADKEY\<close> leaves the engine as \<^verbatim>\<open>EINVAL\<close>.
\<close>

definition fini ::
  "'s callback \<Rightarrow> 32 word \<Rightarrow> int \<Rightarrow> 's \<Rightarrow> engine_call list \<Rightarrow> (int, 's) run" where
  "fini cb fl err s log =
     (case call cb fl ARGP_KEY_FINI None s log of
        Exited code \<Rightarrow> Exited code
      | Returned status s' log' \<Rightarrow> Returned (if err = EBADKEY then EINVAL else err) s' log')"

text \<open>
  With an error the engine, for a usage error, prints and exits as the flags say, and
  otherwise delivers \<^verbatim>\<open>ARGP_KEY_ERROR\<close>, whose status is ignored. Without one it
  delivers \<^verbatim>\<open>ARGP_KEY_SUCCESS\<close>, whose status, unless it is \<^verbatim>\<open>EBADKEY\<close>, becomes the
  result.
\<close>

definition conclude ::
  "'s callback \<Rightarrow> 32 word \<Rightarrow> int \<Rightarrow> 's \<Rightarrow> engine_call list \<Rightarrow> (int, 's) run" where
  "conclude cb fl err s log =
     (if err \<noteq> 0 then
        (case (if err = EBADKEY then usage_error fl else None) of
           Some code \<Rightarrow> Exited code
         | None \<Rightarrow>
             (case call cb fl ARGP_KEY_ERROR None s log of
                Exited code \<Rightarrow> Exited code
              | Returned status s' log' \<Rightarrow> fini cb fl err s' log'))
      else
        (case call cb fl ARGP_KEY_SUCCESS None s log of
           Exited code \<Rightarrow> Exited code
         | Returned status s' log' \<Rightarrow> fini cb fl (if status = EBADKEY then 0 else status) s' log'))"

text \<open>
  When the loop ended without an error: \<^verbatim>\<open>ARGP_KEY_NO_ARGS\<close> if the callback took no
  positional argument, then \<^verbatim>\<open>ARGP_KEY_END\<close> unless that failed; \<^verbatim>\<open>EBADKEY\<close> from
  either counts as 0.
\<close>

definition finish ::
  "'s callback \<Rightarrow> 32 word \<Rightarrow> int \<Rightarrow> nat \<Rightarrow> 's \<Rightarrow> engine_call list \<Rightarrow> (int, 's) run" where
  "finish cb fl err n s log =
     (if err \<noteq> 0 then conclude cb fl err s log
      else
        (case (if n = 0 then call cb fl ARGP_KEY_NO_ARGS None s log else Returned 0 s log) of
           Exited code \<Rightarrow> Exited code
         | Returned status s' log' \<Rightarrow>
             if status \<noteq> 0 \<and> status \<noteq> EBADKEY then conclude cb fl status s' log'
             else
               (case call cb fl ARGP_KEY_END None s' log' of
                  Exited code \<Rightarrow> Exited code
                | Returned status' s'' log'' \<Rightarrow>
                    conclude cb fl (if status' = EBADKEY then 0 else status') s'' log'')))"

text \<open>
  \<^verbatim>\<open>argp_parse(&argp, argc, argv, flags, 0, input)\<close>: \<^verbatim>\<open>ARGP_KEY_INIT\<close> first, and a
  status other than 0 and \<^verbatim>\<open>EBADKEY\<close> there is returned at once; then the loop and
  the end.
\<close>

definition argp_parse ::
  "'s callback \<Rightarrow> 32 word \<Rightarrow> token list \<Rightarrow> 's \<Rightarrow> (int, 's) run" where
  "argp_parse cb fl toks s =
     (case call cb fl ARGP_KEY_INIT None s [] of
        Exited code \<Rightarrow> Exited code
      | Returned status s' log \<Rightarrow>
          if status \<noteq> 0 \<and> status \<noteq> EBADKEY then Returned status s' log
          else
            (case scan cb fl (schedule fl toks) 0 s' log of
               Exited code \<Rightarrow> Exited code
             | Returned r s'' log' \<Rightarrow> finish cb fl (fst r) (snd r) s'' log'))"

text \<open>
  A text between single quotes, and \<^verbatim>\<open>%c\<close> of an \<^verbatim>\<open>int\<close> and \<^verbatim>\<open>%s\<close> of a pointer
  as \<^verbatim>\<open>printf\<close> of the C library formats them.
\<close>

definition quoted :: "string \<Rightarrow> string" where
  "quoted s = CHR 0x27 # s @ [CHR 0x27]"

definition percent_c :: "int \<Rightarrow> string" where
  "percent_c k = [char_of k]"

definition percent_s :: "string option \<Rightarrow> string" where
  "percent_s arg = (case arg of None \<Rightarrow> ''(null)'' | Some a \<Rightarrow> a)"

definition not_usable :: "string option \<Rightarrow> int \<Rightarrow> string" where
  "not_usable arg key =
     ''argument '' @ quoted (percent_s arg) @ '' not usable for '' @ quoted (percent_c key)"

subsection \<open>\<^verbatim>\<open>make_check_function\<close> of \<^verbatim>\<open>cxx_argp_parser.h\<close>\<close>

text \<open>
  Each overload returns a lambda that holds its destination \<^verbatim>\<open>x\<close> by reference. The
  model of a lambda takes the raw text and the current value of \<^verbatim>\<open>x\<close> and returns the
  flag and the new value of \<^verbatim>\<open>x\<close>. The integer overload is a template over every
  integer type \<^verbatim>\<open>T\<close>: a destination of \<open>N\<close> bits is an \<open>N\<close>-bit word (read with
  \<^const>\<open>sint\<close> for a signed and \<^const>\<open>unat\<close> for an unsigned type), and the
  assignment \<^verbatim>\<open>x = v\<close> of the \<^verbatim>\<open>long\<close> keeps its low \<open>N\<close> bits. The same holds for
  the elements of the arithmetic vector overload and the \<^verbatim>\<open>int\<close> that \<^verbatim>\<open>std::stoi\<close>
  returns. The overloads for floating-point numbers (and the vector overload at a
  floating-point element type), for a file stream and for a pair of file stream and name
  depend on floating-point arithmetic and on the file system and are not embedded; to
  the parser they are converters like any other.
\<close>

definition make_check_function_integer_A :: "string \<Rightarrow> 'a::len word \<Rightarrow> bool \<times> 'a word" where
  "make_check_function_integer_A arg x =
     (case strtol arg 0 of (v, endp, erange) \<Rightarrow>
        if \<not> erange \<and> endp = [] then (True, word_of_int v) else (False, x))"

definition make_check_function_string_A :: "string \<Rightarrow> string \<Rightarrow> bool \<times> string" where
  "make_check_function_string_A arg x = (True, arg)"

definition make_check_function_bool_A :: "string \<Rightarrow> bool \<Rightarrow> bool \<times> bool" where
  "make_check_function_bool_A arg x = (True, True)"

function vector_string_loop_A :: "string \<Rightarrow> string list \<Rightarrow> string list" where
  "vector_string_loop_A s x =
     (case getline s CHR '','' of
        None \<Rightarrow> x
      | Some (val, rest) \<Rightarrow> vector_string_loop_A rest (x @ [val]))"
  by pat_completeness auto
termination
  by (relation "measure (\<lambda>(s, x). length s)") (auto dest: getline_shorter)

declare vector_string_loop_A.simps [simp del]

definition make_check_function_vector_string_A ::
  "string \<Rightarrow> string list \<Rightarrow> bool \<times> string list" where
  "make_check_function_vector_string_A arg x = (True, vector_string_loop_A arg x)"

function vector_loop_A :: "string \<Rightarrow> 'a::len word list \<Rightarrow> bool \<times> 'a word list" where
  "vector_loop_A s x =
     (case getline s CHR '','' of
        None \<Rightarrow> (True, x)
      | Some (val, rest) \<Rightarrow>
          (case stoi val of
             Inl e \<Rightarrow> (False, x)
           | Inr v \<Rightarrow> vector_loop_A rest (x @ [word_of_int v])))"
  by pat_completeness auto
termination
  by (relation "measure (\<lambda>(s, x). length s)") (auto dest: getline_shorter)

declare vector_loop_A.simps [simp del]

definition make_check_function_vector_A ::
  "string \<Rightarrow> 'a::len word list \<Rightarrow> bool \<times> 'a word list" where
  "make_check_function_vector_A arg x = vector_loop_A arg x"

subsection \<open>\<^verbatim>\<open>make_check_function\<close> of \<^verbatim>\<open>part_000\<close>\<close>

text \<open>
  Here a lambda is an \<^verbatim>\<open>arg_parser\<close>: it takes the key, the raw text and the engine's
  state, returns an \<^verbatim>\<open>error_t\<close> and reports a failure to the engine itself. The model
  returns the status, the new value of \<^verbatim>\<open>x\<close> and the calls made to the engine.
\<close>

definition make_check_function_integer_B ::
  "int \<Rightarrow> string \<Rightarrow> 'a::len word \<Rightarrow> int \<times> 'a word \<times> engine_call list" where
  "make_check_function_integer_B key arg x =
     (case stol arg of
        Inr v \<Rightarrow> (0, word_of_int v, [])
      | Inl err \<Rightarrow>
          (- 1, x,
           [Argp_error (''unable to interpret '' @ quoted arg @ '' as a whole number, ''
              @ what ''stol'' err)]))"

definition make_check_function_string_B ::
  "int \<Rightarrow> string \<Rightarrow> string \<Rightarrow> int \<times> string \<times> engine_call list" where
  "make_check_function_string_B key arg x = (0, arg, [])"

definition make_check_function_bool_B ::
  "int \<Rightarrow> string \<Rightarrow> bool \<Rightarrow> int \<times> bool \<times> engine_call list" where
  "make_check_function_bool_B key arg x = (0, True, [])"

text \<open>
  The vector overload is generic in the element type: \<open>elem\<close> is
  \<^verbatim>\<open>make_check_function(val)\<close> for the element \<^verbatim>\<open>T val\<close> declared inside the loop, and
  \<open>fresh\<close> the value that declaration gives it. The inner \<^verbatim>\<open>val\<close> hides the piece read
  by \<^verbatim>\<open>getline\<close>, and the element converter is called on \<^verbatim>\<open>arg\<close>, the whole raw text.
\<close>

function vector_loop_B ::
  "(int \<Rightarrow> string \<Rightarrow> 'a \<Rightarrow> int \<times> 'a \<times> engine_call list) \<Rightarrow> 'a \<Rightarrow> int \<Rightarrow> string \<Rightarrow> string \<Rightarrow>
   'a list \<Rightarrow> int \<times> 'a list \<times> engine_call list" where
  "vector_loop_B elem fresh key arg s x =
     (case getline s CHR '','' of
        None \<Rightarrow> (0, x, [])
      | Some (piece, rest) \<Rightarrow>
          (case elem key arg fresh of (status, val, calls) \<Rightarrow>
             if status \<noteq> 0 then (- 1, x, calls)
             else
               (case vector_loop_B elem fresh key arg rest (x @ [val]) of
                  (status', x', calls') \<Rightarrow> (status', x', calls @ calls'))))"
  by pat_completeness auto
termination
  by (relation "measure (\<lambda>(elem, fresh, key, arg, s, x). length s)") (auto dest: getline_shorter)

declare vector_loop_B.simps [simp del]

definition make_check_function_vector_B ::
  "(int \<Rightarrow> string \<Rightarrow> 'a \<Rightarrow> int \<times> 'a \<times> engine_call list) \<Rightarrow> 'a \<Rightarrow> int \<Rightarrow> string \<Rightarrow>
   'a list \<Rightarrow> int \<times> 'a list \<times> engine_call list" where
  "make_check_function_vector_B elem fresh key arg x = vector_loop_B elem fresh key arg arg x"

subsection \<open>The parser of \<^verbatim>\<open>cxx_argp_parser.h\<close>\<close>

text \<open>
  \<^verbatim>\<open>struct argp_option\<close> of \<^verbatim>\<open>argp.h\<close>, its fields prefixed with \<open>opt_\<close>. The
  destinations are owned by the caller; \<open>'d\<close> is the type of the caller's variables
  taken together, and a registered converter is a function of the pointer \<^verbatim>\<open>arg\<close> and
  these variables. \<open>by_reference\<close> is the capture \<^verbatim>\<open>[&x]\<close> around one of the
  overloads above: it runs the body of the lambda on the text \<^verbatim>\<open>arg\<close> points to and
  on the one variable it holds.
\<close>

record argp_option =
  opt_name :: "string option"
  opt_key :: int
  opt_arg :: "string option"
  opt_flags :: int
  opt_doc :: "string option"
  opt_group :: int

definition zero_option :: argp_option where
  "zero_option =
     \<lparr>opt_name = None, opt_key = 0, opt_arg = None, opt_flags = 0, opt_doc = None, opt_group = 0\<rparr>"

type_synonym 'd converter_A = "string option \<Rightarrow> 'd \<Rightarrow> bool \<times> 'd"

definition by_reference_A ::
  "('d \<Rightarrow> 'a) \<Rightarrow> ('a \<Rightarrow> 'd \<Rightarrow> 'd) \<Rightarrow> (string \<Rightarrow> 'a \<Rightarrow> bool \<times> 'a) \<Rightarrow> 'd converter_A" where
  "by_reference_A get put body arg d = (case body (the arg) (get d) of (ok, v) \<Rightarrow> (ok, put v d))"

record 'd parser_A =
  options_A :: "argp_option list"
  convert_A :: "int \<rightharpoonup> 'd converter_A"
  expected_argument_count_A :: "64 word"
  arguments_A :: "string list"
  counter_A :: "int \<rightharpoonup> 64 word"
  flags_A :: "32 word"

text \<open>The constructor \<^verbatim>\<open>parser(size_t expected_argument_count_ = 0)\<close>.\<close>

definition parser_A :: "64 word \<Rightarrow> 'd parser_A" where
  "parser_A expected_argument_count =
     \<lparr>options_A = [zero_option], convert_A = Map.empty,
      expected_argument_count_A = expected_argument_count, arguments_A = [],
      counter_A = Map.empty, flags_A = 0\<rparr>"

text \<open>\<^verbatim>\<open>std::map::insert\<close>: the pair is stored only when the map has no entry for the key.\<close>

definition map_insert :: "('k \<rightharpoonup> 'v) \<Rightarrow> 'k \<Rightarrow> 'v \<Rightarrow> ('k \<rightharpoonup> 'v)" where
  "map_insert m k v = (case m k of None \<Rightarrow> m(k \<mapsto> v) | Some old \<Rightarrow> m)"

text \<open>\<^verbatim>\<open>options_.insert(options_.end() - 1, o)\<close>: before the last element.\<close>

definition insert_before_last :: "'a list \<Rightarrow> 'a \<Rightarrow> 'a list" where
  "insert_before_last xs opt = butlast xs @ opt # drop (length xs - 1) xs"

definition add_option_A :: "argp_option \<Rightarrow> 'd converter_A \<Rightarrow> 'd parser_A \<Rightarrow> 'd parser_A" where
  "add_option_A opt custom p =
     p\<lparr>options_A := insert_before_last (options_A p) opt,
       convert_A := map_insert (convert_A p) (opt_key opt) custom,
       counter_A := map_insert (counter_A p) (opt_key opt) 0\<rparr>"

definition add_flags_A :: "32 word \<Rightarrow> 'd parser_A \<Rightarrow> 'd parser_A" where
  "add_flags_A fl p = p\<lparr>flags_A := flags_A p OR fl\<rparr>"

definition remove_flags_A :: "32 word \<Rightarrow> 'd parser_A \<Rightarrow> 'd parser_A" where
  "remove_flags_A fl p = p\<lparr>flags_A := flags_A p AND NOT fl\<rparr>"

text \<open>\<^verbatim>\<open>arguments()\<close> is a \<^verbatim>\<open>const\<close> member: it returns the sequence and leaves the object.\<close>

definition arguments_fn_A :: "'d parser_A \<Rightarrow> string list \<times> 'd parser_A" where
  "arguments_fn_A p = (arguments_A p, p)"

text \<open>
  The callback \<^verbatim>\<open>parseoptions_\<close>. Its state is the parser object and the caller's
  variables; it returns the \<^verbatim>\<open>error_t\<close>, the new state and the calls to the engine.
  \<^verbatim>\<open>counter_[key]++\<close> creates a missing entry at 0 before it counts.
  \<^verbatim>\<open>arguments_.push_back(arg)\<close> builds a \<^verbatim>\<open>std::string\<close> from the pointer.
\<close>

definition parseoptions_A ::
  "int \<Rightarrow> string option \<Rightarrow> 'd parser_A \<times> 'd \<Rightarrow> int \<times> ('d parser_A \<times> 'd) \<times> engine_call list" where
  "parseoptions_A key arg s =
     (case s of (p, d) \<Rightarrow>
        (case convert_A p key of
           Some option \<Rightarrow>
             (case option arg d of (ok, d') \<Rightarrow>
                if \<not> ok
                then (- 1,
                      (p\<lparr>counter_A := (counter_A p)
                           (key \<mapsto> (case counter_A p key of None \<Rightarrow> 0 | Some c \<Rightarrow> c) + 1)\<rparr>, d'),
                      [Argp_error (not_usable arg key)])
                else (0,
                      (p\<lparr>counter_A := (counter_A p)
                           (key \<mapsto> (case counter_A p key of None \<Rightarrow> 0 | Some c \<Rightarrow> c) + 1)\<rparr>, d'),
                      []))
         | None \<Rightarrow>
             if key = ARGP_KEY_INIT then (0, (p\<lparr>arguments_A := []\<rparr>, d), [])
             else if key = ARGP_KEY_ARG
             then (0, (p\<lparr>arguments_A := arguments_A p @ [the arg]\<rparr>, d), [])
             else if key = ARGP_KEY_END then
               (if expected_argument_count_A p = - 1 then (0, (p, d), [])
                else if unat (expected_argument_count_A p) < length (arguments_A p)
                then (0, (p, d), [Argp_failure 1 0 ''too many arguments given''])
                else if length (arguments_A p) < unat (expected_argument_count_A p)
                then (0, (p, d), [Argp_failure 1 0 ''too few arguments given''])
                else (0, (p, d), []))
             else if key = ARGP_KEY_ERROR then (0, (p, d), [])
             else (0, (p, d), [])))"

text \<open>
  \<^verbatim>\<open>parse(argc, argv, usage, doc)\<close>, on the command line as \<^verbatim>\<open>getopt\<close> reads it. The
  result is the returned \<^verbatim>\<open>bool\<close>, the state and the calls to the engine, or the exit
  of the process.
\<close>

definition help_unless :: "bool \<Rightarrow> engine_call list" where
  "help_unless disabled = (if disabled then [] else [Argp_help])"

definition parse_A :: "token list \<Rightarrow> 'd parser_A \<times> 'd \<Rightarrow> (bool, 'd parser_A \<times> 'd) run" where
  "parse_A toks s =
     (case argp_parse parseoptions_A (flags_A (fst s)) toks s of
        Exited code \<Rightarrow> Exited code
      | Returned ret s' log \<Rightarrow>
          if flags_A (fst s') AND ARGP_NO_ERRS \<noteq> 0 then Returned True s' log
          else if ret \<noteq> 0
          then Returned False s' (log @ help_unless (flags_A (fst s') AND ARGP_NO_HELP \<noteq> 0))
          else if expected_argument_count_A (fst s') \<noteq> - 1 \<and>
                  unat (expected_argument_count_A (fst s')) \<noteq> length (arguments_A (fst s'))
          then Returned False s' (log @ help_unless (flags_A (fst s') AND ARGP_NO_HELP \<noteq> 0))
          else Returned True s' log)"

subsection \<open>The parser of \<^verbatim>\<open>part_000\<close>\<close>

type_synonym 'd converter_B = "int \<Rightarrow> string option \<Rightarrow> 'd \<Rightarrow> int \<times> 'd \<times> engine_call list"

definition by_reference_B ::
  "('d \<Rightarrow> 'a) \<Rightarrow> ('a \<Rightarrow> 'd \<Rightarrow> 'd) \<Rightarrow> (int \<Rightarrow> string \<Rightarrow> 'a \<Rightarrow> int \<times> 'a \<times> engine_call list) \<Rightarrow>
   'd converter_B" where
  "by_reference_B get put body key arg d =
     (case body key (the arg) (get d) of (status, v, calls) \<Rightarrow> (status, put v d, calls))"

record 'd parser_B =
  options_B :: "argp_option list"
  convert_B :: "int \<rightharpoonup> 'd converter_B"
  expected_argument_count_B :: "64 word"
  arguments_B :: "string list"
  flags_B :: "32 word"
  help_via_argp_flags :: bool

definition parser_B :: "64 word \<Rightarrow> 'd parser_B" where
  "parser_B expected_argument_count =
     \<lparr>options_B = [zero_option], convert_B = Map.empty,
      expected_argument_count_B = expected_argument_count, arguments_B = [],
      flags_B = 0, help_via_argp_flags = True\<rparr>"

definition add_option_B :: "argp_option \<Rightarrow> 'd converter_B \<Rightarrow> 'd parser_B \<Rightarrow> 'd parser_B" where
  "add_option_B option custom p =
     p\<lparr>options_B := insert_before_last (options_B p) option,
       convert_B := map_insert (convert_B p) (opt_key option) custom\<rparr>"

text \<open>The overload for a custom \<^verbatim>\<open>bool(const char *)\<close>, wrapped into an \<^verbatim>\<open>arg_parser\<close>.\<close>

definition add_option_bool_B :: "argp_option \<Rightarrow> 'd converter_A \<Rightarrow> 'd parser_B \<Rightarrow> 'd parser_B" where
  "add_option_bool_B option custom p =
     p\<lparr>options_B := insert_before_last (options_B p) option,
       convert_B := map_insert (convert_B p) (opt_key option)
         (\<lambda>key arg d.
            case custom arg d of (ok, d') \<Rightarrow>
              if \<not> ok then (- 1, d', [Argp_error (not_usable arg key)]) else (0, d', []))\<rparr>"

definition add_flags_B :: "32 word \<Rightarrow> 'd parser_B \<Rightarrow> 'd parser_B" where
  "add_flags_B fl p = p\<lparr>flags_B := flags_B p OR fl\<rparr>"

definition remove_flags_B :: "32 word \<Rightarrow> 'd parser_B \<Rightarrow> 'd parser_B" where
  "remove_flags_B fl p = p\<lparr>flags_B := flags_B p AND NOT fl\<rparr>"

definition arguments_fn_B :: "'d parser_B \<Rightarrow> string list \<times> 'd parser_B" where
  "arguments_fn_B p = (arguments_B p, p)"

definition parseoptions_B ::
  "int \<Rightarrow> string option \<Rightarrow> 'd parser_B \<times> 'd \<Rightarrow> int \<times> ('d parser_B \<times> 'd) \<times> engine_call list" where
  "parseoptions_B key arg s =
     (case s of (p, d) \<Rightarrow>
        if key = ARGP_KEY_INIT then (0, (p\<lparr>arguments_B := []\<rparr>, d), [])
        else if key = ARGP_KEY_ARG
        then (0, (p\<lparr>arguments_B := arguments_B p @ [the arg]\<rparr>, d), [])
        else if key = ARGP_KEY_END then
          (if expected_argument_count_B p = - 1 then (0, (p, d), [])
           else if unat (expected_argument_count_B p) < length (arguments_B p)
           then (0, (p, d), [Argp_error ''too many arguments given''])
           else if length (arguments_B p) < unat (expected_argument_count_B p)
           then (0, (p, d), [Argp_error ''too few arguments given''])
           else (0, (p, d), []))
        else if key = ARGP_KEY_ERROR then (0, (p, d), [])
        else
          (case convert_B p key of
             Some option \<Rightarrow> (case option key arg d of (status, d', calls) \<Rightarrow> (status, (p, d'), calls))
           | None \<Rightarrow> (0, (p, d), [])))"

definition parse_B :: "token list \<Rightarrow> 'd parser_B \<times> 'd \<Rightarrow> (bool, 'd parser_B \<times> 'd) run" where
  "parse_B toks s =
     (case argp_parse parseoptions_B (flags_B (fst s)) toks s of
        Exited code \<Rightarrow> Exited code
      | Returned ret s' log \<Rightarrow>
          if flags_B (fst s') AND ARGP_NO_ERRS \<noteq> 0 then Returned True s' log
          else if ret \<noteq> 0
          then Returned False s'
                 (log @ help_unless (help_via_argp_flags (fst s') \<and> flags_B (fst s') AND ARGP_NO_HELP \<noteq> 0))
          else if expected_argument_count_B (fst s') \<noteq> - 1 \<and>
                  unat (expected_argument_count_B (fst s')) \<noteq> length (arguments_B (fst s'))
          then Returned False s'
                 (log @ help_unless (help_via_argp_flags (fst s') \<and> flags_B (fst s') AND ARGP_NO_HELP \<noteq> 0))
          else Returned True s' log)"

subsection \<open>The calls of the public interface other than \<^verbatim>\<open>parse\<close>\<close>

datatype 'd member_call_A =
  Add_option_A argp_option "'d converter_A"
| Add_flags_A "32 word"
| Remove_flags_A "32 word"
| Arguments_A

fun member_A :: "'d member_call_A \<Rightarrow> 'd parser_A \<Rightarrow> 'd parser_A" where
  "member_A (Add_option_A opt custom) p = add_option_A opt custom p"
| "member_A (Add_flags_A fl) p = add_flags_A fl p"
| "member_A (Remove_flags_A fl) p = remove_flags_A fl p"
| "member_A Arguments_A p = snd (arguments_fn_A p)"

datatype 'd member_call_B =
  Add_option_B argp_option "'d converter_B"
| Add_option_bool_B argp_option "'d converter_A"
| Add_flags_B "32 word"
| Remove_flags_B "32 word"
| Arguments_B

fun member_B :: "'d member_call_B \<Rightarrow> 'd parser_B \<Rightarrow> 'd parser_B" where
  "member_B (Add_option_B opt custom) p = add_option_B opt custom p"
| "member_B (Add_option_bool_B opt custom) p = add_option_bool_B opt custom p"
| "member_B (Add_flags_B fl) p = add_flags_B fl p"
| "member_B (Remove_flags_B fl) p = remove_flags_B fl p"
| "member_B Arguments_B p = snd (arguments_fn_B p)"

subsection \<open>A caller\<close>

text \<open>
  A program with four destination variables, an \<^verbatim>\<open>int\<close> behind \<^verbatim>\<open>-n\<close>, a
  \<^verbatim>\<open>std::vector<int>\<close> behind \<^verbatim>\<open>-l\<close>, and two positional arguments expected; and two
  custom converters, one that accepts and one that rejects every text.
\<close>

record destinations =
  var_count :: "32 word"
  var_numbers :: "32 word list"
  var_names :: "string list"
  var_verbose :: bool

definition initial :: destinations where
  "initial = \<lparr>var_count = 0, var_numbers = [], var_names = [], var_verbose = False\<rparr>"

definition option_count :: argp_option where
  "option_count =
     \<lparr>opt_name = Some ''count'', opt_key = 110, opt_arg = Some ''N'', opt_flags = 0,
      opt_doc = Some ''a whole number'', opt_group = 0\<rparr>"

definition option_list :: argp_option where
  "option_list =
     \<lparr>opt_name = Some ''list'', opt_key = 108, opt_arg = Some ''N,N'', opt_flags = 0,
      opt_doc = Some ''whole numbers'', opt_group = 0\<rparr>"

definition count_A :: "destinations converter_A" where
  "count_A = by_reference_A var_count (\<lambda>v d. d\<lparr>var_count := v\<rparr>) make_check_function_integer_A"

definition numbers_A :: "destinations converter_A" where
  "numbers_A = by_reference_A var_numbers (\<lambda>v d. d\<lparr>var_numbers := v\<rparr>) make_check_function_vector_A"

definition accept_A :: "destinations converter_A" where
  "accept_A arg d = (True, d)"

definition reject_A :: "destinations converter_A" where
  "reject_A arg d = (False, d)"

definition caller_A :: "destinations parser_A" where
  "caller_A = add_option_A option_list numbers_A (add_option_A option_count count_A (parser_A 2))"

definition count_B :: "destinations converter_B" where
  "count_B = by_reference_B var_count (\<lambda>v d. d\<lparr>var_count := v\<rparr>) make_check_function_integer_B"

definition numbers_B :: "destinations converter_B" where
  "numbers_B =
     by_reference_B var_numbers (\<lambda>v d. d\<lparr>var_numbers := v\<rparr>)
       (make_check_function_vector_B make_check_function_integer_B 0)"

definition accept_B :: "destinations converter_B" where
  "accept_B key arg d = (0, d, [])"

definition reject_B :: "destinations converter_B" where
  "reject_B key arg d = (- 1, d, [Argp_error (not_usable arg key)])"

definition caller_B :: "destinations parser_B" where
  "caller_B = add_option_B option_list numbers_B (add_option_B option_count count_B (parser_B 2))"

subsection \<open>What a caller can see of a run of \<^verbatim>\<open>cxx_argp_parser.h\<close>\<close>

text \<open>
  \<^verbatim>\<open>counter_\<close> is private and no member reads it. \<open>observe_A\<close> is a run without
  it: the result, the parser with its counters blanked, the destinations, the calls.
\<close>

definition forget_counter :: "'d parser_A \<times> 'd \<Rightarrow> 'd parser_A \<times> 'd" where
  "forget_counter s = ((fst s)\<lparr>counter_A := Map.empty\<rparr>, snd s)"

definition observe_A :: "('r, 'd parser_A \<times> 'd) run \<Rightarrow> ('r, 'd parser_A \<times> 'd) run" where
  "observe_A r = (case r of Exited code \<Rightarrow> Exited code | Returned b s log \<Rightarrow> Returned b (forget_counter s) log)"

subsection \<open>Reading an invocation off its command line\<close>

text \<open>
  The positional arguments of a command line; whether the engine finds nothing to
  reject in it; and whether no option carries a key that the engine uses for its own
  events. \<open>reserved_unregistered_A\<close> and \<open>reserved_unregistered_B\<close> say that
  \<^verbatim>\<open>add_option\<close> was never called with the key of an event that the engine delivers
  in a run without error and that the callback would look up in the registry: every
  such event in \<^verbatim>\<open>cxx_argp_parser.h\<close>, those that the \<^verbatim>\<open>switch\<close> leaves to
  \<^verbatim>\<open>default\<close> in \<^verbatim>\<open>part_000\<close>.
  \<open>options_ok\<close> runs the registered converters over the options in order,
  on the destinations as the converters before left them, and says whether all accept;
  in \<^verbatim>\<open>part_000\<close>, where a converter talks to the engine itself, whether all return 0
  and none of their calls ends the process.
\<close>

fun positional :: "token list \<Rightarrow> string list" where
  "positional [] = []"
| "positional (Argument a # ts) = a # positional ts"
| "positional (t # ts) = positional ts"

fun recognized :: "token list \<Rightarrow> bool" where
  "recognized [] = True"
| "recognized (Unrecognized # ts) = False"
| "recognized (t # ts) = recognized ts"

definition lifecycle_key :: "int \<Rightarrow> bool" where
  "lifecycle_key k =
     (k = ARGP_KEY_ARG \<or> k = ARGP_KEY_ARGS \<or> k = ARGP_KEY_END \<or> k = ARGP_KEY_NO_ARGS \<or>
      k = ARGP_KEY_INIT \<or> k = ARGP_KEY_SUCCESS \<or> k = ARGP_KEY_ERROR \<or> k = ARGP_KEY_FINI)"

fun option_keys_free :: "token list \<Rightarrow> bool" where
  "option_keys_free [] = True"
| "option_keys_free (Option key arg # ts) = (\<not> lifecycle_key key \<and> option_keys_free ts)"
| "option_keys_free (t # ts) = option_keys_free ts"

definition reserved_unregistered_A :: "(int \<rightharpoonup> 'c) \<Rightarrow> bool" where
  "reserved_unregistered_A cv =
     (cv ARGP_KEY_INIT = None \<and> cv ARGP_KEY_ARG = None \<and> cv ARGP_KEY_NO_ARGS = None \<and>
      cv ARGP_KEY_END = None \<and> cv ARGP_KEY_SUCCESS = None \<and> cv ARGP_KEY_FINI = None)"

definition reserved_unregistered_B :: "(int \<rightharpoonup> 'c) \<Rightarrow> bool" where
  "reserved_unregistered_B cv =
     (cv ARGP_KEY_NO_ARGS = None \<and> cv ARGP_KEY_SUCCESS = None \<and> cv ARGP_KEY_FINI = None)"

fun options_ok_A :: "(int \<rightharpoonup> 'd converter_A) \<Rightarrow> token list \<Rightarrow> 'd \<Rightarrow> bool" where
  "options_ok_A cv [] d = True"
| "options_ok_A cv (Option key arg # ts) d =
     (case cv key of
        None \<Rightarrow> options_ok_A cv ts d
      | Some option \<Rightarrow> (case option arg d of (ok, d') \<Rightarrow> ok \<and> options_ok_A cv ts d'))"
| "options_ok_A cv (t # ts) d = options_ok_A cv ts d"

fun options_ok_B :: "32 word \<Rightarrow> (int \<rightharpoonup> 'd converter_B) \<Rightarrow> token list \<Rightarrow> 'd \<Rightarrow> bool" where
  "options_ok_B fl cv [] d = True"
| "options_ok_B fl cv (Option key arg # ts) d =
     (case cv key of
        None \<Rightarrow> options_ok_B fl cv ts d
      | Some option \<Rightarrow>
          (case option key arg d of (status, d', calls) \<Rightarrow>
             status = 0 \<and> first_exit fl calls = None \<and> options_ok_B fl cv ts d'))"
| "options_ok_B fl cv (t # ts) d = options_ok_B fl cv ts d"

subsection \<open>Reading the converters' verdicts\<close>

text \<open>
  Whether \<^verbatim>\<open>std::stoi\<close> returns on a piece, and what; the characters a text accepted by
  \<^verbatim>\<open>strtol\<close> with base 0 can be made of: white space, signs, hexadecimal digits and
  the \<^verbatim>\<open>x\<close> of the prefix; and a decimal numeral: one or more decimal digits,
  \<open>decimal\<close> being the number they write.
\<close>

definition stoi_ok :: "string \<Rightarrow> bool" where
  "stoi_ok val = (case stoi val of Inl e \<Rightarrow> False | Inr v \<Rightarrow> True)"

definition stoi_value :: "string \<Rightarrow> int" where
  "stoi_value val = (case stoi val of Inl e \<Rightarrow> 0 | Inr v \<Rightarrow> v)"





section \<open>Properties of the embedding\<close>

subsection \<open>The sequence converters\<close>

text \<open>
  The loops only ever extend the destination, so running a loop on a destination that
  already holds \<open>x\<close> is running it on the rest and putting \<open>x\<close> in front.
\<close>

lemma vector_loop_A_append:
  "vector_loop_A s (x @ y) = (case vector_loop_A s y of (ok, ys) \<Rightarrow> (ok, x @ ys))"
proof (induction s y rule: vector_loop_A.induct)
  case (1 s y)
  show ?case
    apply (subst vector_loop_A.simps [of s "x @ y"])
    apply (subst vector_loop_A.simps [of s y])
    using 1 by (auto split: option.splits sum.splits)
qed

lemma vector_string_loop_A_append:
  "vector_string_loop_A s (x @ y) = x @ vector_string_loop_A s y"
proof (induction s y rule: vector_string_loop_A.induct)
  case (1 s y)
  show ?case
    apply (subst vector_string_loop_A.simps [of s "x @ y"])
    apply (subst vector_string_loop_A.simps [of s y])
    using 1 by (auto split: option.splits)
qed

lemma vector_loop_B_append:
  "vector_loop_B elem fresh key arg s (x @ y) =
     (case vector_loop_B elem fresh key arg s y of (st, ys, calls) \<Rightarrow> (st, x @ ys, calls))"
proof (induction elem fresh key arg s y rule: vector_loop_B.induct)
  case (1 elem fresh key arg s y)
  show ?case
    apply (subst vector_loop_B.simps [of elem fresh key arg s "x @ y"])
    apply (subst vector_loop_B.simps [of elem fresh key arg s y])
    using 1 by (auto split: option.splits prod.splits)
qed

subsection \<open>The calls other than \<^verbatim>\<open>parse\<close>\<close>

lemma member_A_arguments: "arguments_A (member_A c p) = arguments_A p"
  by (cases c) (simp_all add: add_option_A_def add_flags_A_def remove_flags_A_def arguments_fn_A_def)

lemma fold_member_A_arguments: "arguments_A (fold member_A cs p) = arguments_A p"
  by (induction cs arbitrary: p) (simp_all add: member_A_arguments)

lemma member_B_arguments: "arguments_B (member_B c p) = arguments_B p"
  by (cases c)
    (simp_all add: add_option_B_def add_option_bool_B_def add_flags_B_def remove_flags_B_def
      arguments_fn_B_def)

lemma fold_member_B_arguments: "arguments_B (fold member_B cs p) = arguments_B p"
  by (induction cs arbitrary: p) (simp_all add: member_B_arguments)

subsection \<open>The engine never exits under \<^verbatim>\<open>ARGP_NO_ERRS\<close> or \<^verbatim>\<open>ARGP_NO_EXIT\<close>\<close>

lemma usage_error_quiet:
  "fl AND ARGP_NO_ERRS \<noteq> 0 \<or> fl AND ARGP_NO_EXIT \<noteq> 0 \<Longrightarrow> usage_error fl = None"
  by (auto simp: usage_error_def)

lemma engine_exit_quiet:
  "fl AND ARGP_NO_ERRS \<noteq> 0 \<or> fl AND ARGP_NO_EXIT \<noteq> 0 \<Longrightarrow> engine_exit fl c = None"
  by (cases c) (auto simp: engine_exit_def usage_error_def)

lemma first_exit_quiet:
  "fl AND ARGP_NO_ERRS \<noteq> 0 \<or> fl AND ARGP_NO_EXIT \<noteq> 0 \<Longrightarrow> first_exit fl cs = None"
  by (induction cs) (simp_all add: engine_exit_quiet)

lemma call_quiet:
  "fl AND ARGP_NO_ERRS \<noteq> 0 \<or> fl AND ARGP_NO_EXIT \<noteq> 0 \<Longrightarrow>
   call cb fl key arg s log =
     Returned (fst (cb key arg s)) (fst (snd (cb key arg s))) (log @ snd (snd (cb key arg s)))"
  by (cases "cb key arg s") (simp add: call_def first_exit_quiet)

lemma scan_quiet:
  assumes "fl AND ARGP_NO_ERRS \<noteq> 0 \<or> fl AND ARGP_NO_EXIT \<noteq> 0"
  shows "\<exists>r s' l. scan cb fl ts n s log = Returned r s' l"
proof (induction ts arbitrary: n s log)
  case Nil
  show ?case by simp
next
  case (Cons t ts)
  show ?case
  proof (cases t)
    case (Option key arg)
    then show ?thesis using Cons [of n] by (simp add: call_quiet [OF assms])
  next
    case (Argument a)
    then show ?thesis using Cons [of "Suc n"] by (simp add: call_quiet [OF assms])
  next
    case Unrecognized
    then show ?thesis by simp
  qed
qed

lemma fini_quiet:
  assumes "fl AND ARGP_NO_ERRS \<noteq> 0 \<or> fl AND ARGP_NO_EXIT \<noteq> 0"
  shows "\<exists>st s' l. fini cb fl err s log = Returned st s' l"
  by (simp add: fini_def call_quiet [OF assms])

lemma conclude_quiet:
  assumes "fl AND ARGP_NO_ERRS \<noteq> 0 \<or> fl AND ARGP_NO_EXIT \<noteq> 0"
  shows "\<exists>st s' l. conclude cb fl err s log = Returned st s' l"
  by (simp add: conclude_def call_quiet [OF assms] usage_error_quiet [OF assms]
      fini_quiet [OF assms])

lemma finish_quiet:
  assumes "fl AND ARGP_NO_ERRS \<noteq> 0 \<or> fl AND ARGP_NO_EXIT \<noteq> 0"
  shows "\<exists>st s' l. finish cb fl err n s log = Returned st s' l"
  by (simp add: finish_def call_quiet [OF assms] conclude_quiet [OF assms])

lemma argp_parse_quiet:
  assumes "fl AND ARGP_NO_ERRS \<noteq> 0 \<or> fl AND ARGP_NO_EXIT \<noteq> 0"
  shows "\<exists>st s' l. argp_parse cb fl toks s = Returned st s' l"
proof -
  obtain r s' l where sc:
    "scan cb fl (schedule fl toks) 0 (fst (snd (cb ARGP_KEY_INIT None s)))
       (snd (snd (cb ARGP_KEY_INIT None s))) = Returned r s' l"
    using scan_quiet [OF assms, of cb "schedule fl toks" 0 "fst (snd (cb ARGP_KEY_INIT None s))"
        "snd (snd (cb ARGP_KEY_INIT None s))"] by blast
  show ?thesis
    using sc finish_quiet [OF assms, of cb "fst r" "snd r" s' l]
    by (auto simp: argp_parse_def call_quiet [OF assms])
qed

subsection \<open>What every callback step keeps, a returning run keeps\<close>

lemma call_invariant:
  assumes step: "\<forall>key arg s. I s \<longrightarrow> I (fst (snd (cb key arg s)))"
  shows "I s \<Longrightarrow> call cb fl key arg s log = Returned st s' l \<Longrightarrow> I s'"
proof -
  assume i: "I s" and c: "call cb fl key arg s log = Returned st s' l"
  have "s' = fst (snd (cb key arg s))"
    using c by (cases "cb key arg s") (auto simp: call_def split: option.splits)
  then show "I s'" using step i by simp
qed

lemma scan_invariant:
  assumes step: "\<forall>key arg s. I s \<longrightarrow> I (fst (snd (cb key arg s)))"
  shows "I s \<Longrightarrow> scan cb fl ts n s log = Returned r s' l \<Longrightarrow> I s'"
proof (induction ts arbitrary: n s log)
  case Nil
  then show ?case by simp
next
  case (Cons t ts)
  note ci = call_invariant [OF step]
  show ?case
  proof (cases t)
    case (Option key arg)
    show ?thesis
    proof (cases "call cb fl key arg s log")
      case (Exited code)
      then show ?thesis using Cons.prems Option by simp
    next
      case (Returned st1 s1 l1)
      have "I s1" using ci [OF Cons.prems(1) Returned] .
      then show ?thesis
        using Cons.prems(2) Option Returned Cons.IH [of s1 n l1]
        by (auto split: if_splits)
    qed
  next
    case (Argument a)
    show ?thesis
    proof (cases "call cb fl ARGP_KEY_ARG (Some a) s log")
      case (Exited code)
      then show ?thesis using Cons.prems Argument by simp
    next
      case (Returned st1 s1 l1)
      have i1: "I s1" using ci [OF Cons.prems(1) Returned] .
      show ?thesis
      proof (cases "call cb fl ARGP_KEY_ARGS None s1 l1")
        case (Exited code)
        then show ?thesis
          using Cons.prems(2) Argument Returned i1 Cons.IH [of s1 "Suc n" l1]
          by (auto split: if_splits)
      next
        case r2: (Returned st2 s2 l2)
        have "I s2" using ci [OF i1 r2] .
        then show ?thesis
          using Cons.prems(2) Argument Returned r2 i1 Cons.IH [of s1 "Suc n" l1]
          by (auto split: if_splits)
      qed
    qed
  next
    case Unrecognized
    then show ?thesis using Cons.prems by simp
  qed
qed

lemma fini_invariant:
  assumes step: "\<forall>key arg s. I s \<longrightarrow> I (fst (snd (cb key arg s)))"
  shows "I s \<Longrightarrow> fini cb fl err s log = Returned st s' l \<Longrightarrow> I s'"
proof -
  assume i: "I s" and f: "fini cb fl err s log = Returned st s' l"
  obtain st1 where "call cb fl ARGP_KEY_FINI None s log = Returned st1 s' l"
    using f by (auto simp: fini_def split: run.splits)
  then show "I s'" using call_invariant [OF step i] by blast
qed

lemma conclude_invariant:
  assumes step: "\<forall>key arg s. I s \<longrightarrow> I (fst (snd (cb key arg s)))"
  shows "I s \<Longrightarrow> conclude cb fl err s log = Returned st s' l \<Longrightarrow> I s'"
proof -
  assume i: "I s" and f: "conclude cb fl err s log = Returned st s' l"
  note ci = call_invariant [OF step]
  note fi = fini_invariant [OF step]
  show "I s'"
  proof (cases "err \<noteq> 0")
    case True
    obtain st1 s1 l1 where a: "call cb fl ARGP_KEY_ERROR None s log = Returned st1 s1 l1"
      and b: "fini cb fl err s1 l1 = Returned st s' l"
      using f True by (auto simp: conclude_def split: run.splits option.splits if_splits)
    show ?thesis using fi [OF ci [OF i a] b] .
  next
    case False
    obtain st1 s1 l1 where a: "call cb fl ARGP_KEY_SUCCESS None s log = Returned st1 s1 l1"
      and b: "fini cb fl (if st1 = EBADKEY then 0 else st1) s1 l1 = Returned st s' l"
      using f False by (auto simp: conclude_def split: run.splits)
    show ?thesis using fi [OF ci [OF i a] b] .
  qed
qed

lemma finish_invariant:
  assumes step: "\<forall>key arg s. I s \<longrightarrow> I (fst (snd (cb key arg s)))"
  shows "I s \<Longrightarrow> finish cb fl err n s log = Returned st s' l \<Longrightarrow> I s'"
proof -
  assume i: "I s" and f: "finish cb fl err n s log = Returned st s' l"
  note ci = call_invariant [OF step]
  note co = conclude_invariant [OF step]
  show "I s'"
  proof (cases "err \<noteq> 0")
    case True
    then show ?thesis using f co [OF i] by (simp add: finish_def)
  next
    case False
    obtain st1 s1 l1 where a:
      "(if n = 0 then call cb fl ARGP_KEY_NO_ARGS None s log else Returned 0 s log) = Returned st1 s1 l1"
      using f False by (auto simp: finish_def split: run.splits)
    have i1: "I s1" using a i ci [OF i] by (auto split: if_splits)
    show ?thesis
    proof (cases "st1 \<noteq> 0 \<and> st1 \<noteq> EBADKEY")
      case True
      then show ?thesis using f False a co [OF i1] by (simp add: finish_def)
    next
      case nf: False
      obtain st2 s2 l2 where b: "call cb fl ARGP_KEY_END None s1 l1 = Returned st2 s2 l2"
        using f False a nf by (auto simp: finish_def split: run.splits)
      have i2: "I s2" using ci [OF i1 b] .
      show ?thesis using f False a nf b co [OF i2] by (auto simp: finish_def)
    qed
  qed
qed

lemma argp_parse_invariant:
  assumes step: "\<forall>key arg s. I s \<longrightarrow> I (fst (snd (cb key arg s)))"
    and "I s" and "argp_parse cb fl toks s = Returned st s' l"
  shows "I s'"
proof -
  obtain st0 s0 l0 where a: "call cb fl ARGP_KEY_INIT None s [] = Returned st0 s0 l0"
    using assms(3) by (auto simp: argp_parse_def split: run.splits)
  have i0: "I s0" using call_invariant [OF step assms(2) a] .
  show ?thesis
  proof (cases "st0 \<noteq> 0 \<and> st0 \<noteq> EBADKEY")
    case True
    then show ?thesis using assms(3) a i0 by (simp add: argp_parse_def)
  next
    case False
    obtain r s1 l1 where b: "scan cb fl (schedule fl toks) 0 s0 l0 = Returned r s1 l1"
      using assms(3) a False by (auto simp: argp_parse_def split: run.splits)
    have i1: "I s1" using scan_invariant [OF step i0 b] .
    show ?thesis
      using assms(3) a False b finish_invariant [OF step i1]
      by (auto simp: argp_parse_def)
  qed
qed

subsection \<open>The callbacks\<close>

lemma parseoptions_A_flags:
  "parseoptions_A key arg s = (st, s', calls) \<Longrightarrow> flags_A (fst s') = flags_A (fst s)"
  by (cases s) (auto simp: parseoptions_A_def split: option.splits prod.splits if_splits)

lemma parseoptions_B_flags:
  "parseoptions_B key arg s = (st, s', calls) \<Longrightarrow> flags_B (fst s') = flags_B (fst s)"
  by (cases s) (auto simp: parseoptions_B_def split: option.splits prod.splits if_splits)

lemma parseoptions_A_keeps:
  "parseoptions_A key arg s = (st, s', calls) \<Longrightarrow>
   flags_A (fst s') = flags_A (fst s) \<and>
   expected_argument_count_A (fst s') = expected_argument_count_A (fst s) \<and>
   convert_A (fst s') = convert_A (fst s)"
  by (cases s) (auto simp: parseoptions_A_def split: option.splits prod.splits if_splits)

lemma parseoptions_B_keeps:
  "parseoptions_B key arg s = (st, s', calls) \<Longrightarrow>
   flags_B (fst s') = flags_B (fst s) \<and>
   expected_argument_count_B (fst s') = expected_argument_count_B (fst s) \<and>
   convert_B (fst s') = convert_B (fst s)"
  by (cases s) (auto simp: parseoptions_B_def split: option.splits prod.splits if_splits)

lemma argp_parse_A_keeps:
  fixes s :: "'d parser_A \<times> 'd"
  assumes "argp_parse parseoptions_A fl toks s = Returned st s' l"
  shows "flags_A (fst s') = flags_A (fst s) \<and>
         expected_argument_count_A (fst s') = expected_argument_count_A (fst s)"
proof -
  let ?I = "\<lambda>t :: 'd parser_A \<times> 'd. flags_A (fst t) = flags_A (fst s) \<and>
            expected_argument_count_A (fst t) = expected_argument_count_A (fst s)"
  have step: "\<forall>key arg t. ?I t \<longrightarrow> ?I (fst (snd (parseoptions_A key arg t)))"
  proof (intro allI impI)
    fix key arg t
    assume i: "?I t"
    obtain st1 t1 c1 where e: "parseoptions_A key arg t = (st1, t1, c1)"
      by (cases "parseoptions_A key arg t")
    show "?I (fst (snd (parseoptions_A key arg t)))"
      using parseoptions_A_keeps [OF e] i e by simp
  qed
  show ?thesis
    using argp_parse_invariant [where I = ?I, OF step _ assms] by simp
qed

lemma argp_parse_B_keeps:
  fixes s :: "'d parser_B \<times> 'd"
  assumes "argp_parse parseoptions_B fl toks s = Returned st s' l"
  shows "flags_B (fst s') = flags_B (fst s) \<and>
         expected_argument_count_B (fst s') = expected_argument_count_B (fst s)"
proof -
  let ?I = "\<lambda>t :: 'd parser_B \<times> 'd. flags_B (fst t) = flags_B (fst s) \<and>
            expected_argument_count_B (fst t) = expected_argument_count_B (fst s)"
  have step: "\<forall>key arg t. ?I t \<longrightarrow> ?I (fst (snd (parseoptions_B key arg t)))"
  proof (intro allI impI)
    fix key arg t
    assume i: "?I t"
    obtain st1 t1 c1 where e: "parseoptions_B key arg t = (st1, t1, c1)"
      by (cases "parseoptions_B key arg t")
    show "?I (fst (snd (parseoptions_B key arg t)))"
      using parseoptions_B_keeps [OF e] i e by simp
  qed
  show ?thesis
    using argp_parse_invariant [where I = ?I, OF step _ assms] by simp
qed

subsection \<open>The caller\<close>

lemma caller_A_convert:
  "convert_A caller_A = [110 \<mapsto> count_A, 108 \<mapsto> numbers_A]"
  by (simp add: caller_A_def add_option_A_def parser_A_def map_insert_def option_count_def
      option_list_def)

lemma caller_B_convert:
  "convert_B caller_B = [110 \<mapsto> count_B, 108 \<mapsto> numbers_B]"
  by (simp add: caller_B_def add_option_B_def parser_B_def map_insert_def option_count_def
      option_list_def)

text \<open>\<^verbatim>\<open>std::map::insert\<close> does not replace an entry.\<close>

lemma map_insert_twice: "map_insert (map_insert m k v) k w k = map_insert m k v k"
  by (simp add: map_insert_def split: option.splits)

lemma map_insert_empty: "map_insert (map_insert Map.empty k v) k w k = Some v"
  by (simp add: map_insert_def)

subsection \<open>Runs that start from parsers differing in \<^verbatim>\<open>counter_\<close> only\<close>

lemma forget_counter_eqD:
  assumes "forget_counter s = forget_counter t"
  shows "t = ((fst s)\<lparr>counter_A := counter_A (fst t)\<rparr>, snd s)"
proof -
  have e: "(fst s)\<lparr>counter_A := Map.empty\<rparr> = (fst t)\<lparr>counter_A := Map.empty\<rparr>" and d: "snd s = snd t"
    using assms by (simp_all add: forget_counter_def)
  have "fst t = ((fst t)\<lparr>counter_A := Map.empty\<rparr>)\<lparr>counter_A := counter_A (fst t)\<rparr>"
    by simp
  also have "\<dots> = ((fst s)\<lparr>counter_A := Map.empty\<rparr>)\<lparr>counter_A := counter_A (fst t)\<rparr>"
    by (simp only: e)
  also have "\<dots> = (fst s)\<lparr>counter_A := counter_A (fst t)\<rparr>"
    by simp
  finally show ?thesis using d by (simp add: prod_eq_iff)
qed

lemma parseoptions_A_counter:
  "(case parseoptions_A key arg (p\<lparr>counter_A := c\<rparr>, d) of (st, s', calls) \<Rightarrow> (st, forget_counter s', calls)) =
   (case parseoptions_A key arg (p, d) of (st, s', calls) \<Rightarrow> (st, forget_counter s', calls))"
proof (cases "convert_A p key")
  case None
  then show ?thesis by (simp add: parseoptions_A_def forget_counter_def)
next
  case (Some cv)
  obtain ok d' where r: "cv arg d = (ok, d')" by (cases "cv arg d")
  show ?thesis using Some r by (simp add: parseoptions_A_def forget_counter_def)
qed

lemma parseoptions_A_forget:
  assumes "forget_counter s = forget_counter t"
  shows "(case parseoptions_A key arg s of (st, s', calls) \<Rightarrow> (st, forget_counter s', calls)) =
         (case parseoptions_A key arg t of (st, t', calls) \<Rightarrow> (st, forget_counter t', calls))"
proof -
  have "t = ((fst s)\<lparr>counter_A := counter_A (fst t)\<rparr>, snd s)"
    using forget_counter_eqD [OF assms] .
  then have "(case parseoptions_A key arg t of (st, t', calls) \<Rightarrow> (st, forget_counter t', calls)) =
      (case parseoptions_A key arg (fst s, snd s) of (st, t', calls) \<Rightarrow> (st, forget_counter t', calls))"
    using parseoptions_A_counter [where key = key and arg = arg and p = "fst s"
        and c = "counter_A (fst t)" and d = "snd s"] by simp
  then show ?thesis by simp
qed

text \<open>
  Two runs look the same to the caller when both exit with the same status or both
  return the same result and calls and states that differ in the counters only.
\<close>

lemma observe_A_eq_iff:
  "observe_A r = observe_A r' \<longleftrightarrow>
     (case r of
        Exited c \<Rightarrow> r' = Exited c
      | Returned v s l \<Rightarrow> (\<exists>t. r' = Returned v t l \<and> forget_counter s = forget_counter t))"
  by (cases r; cases r') (auto simp: observe_A_def)

lemma observe_A_case:
  assumes "observe_A r = observe_A r'"
    and "\<And>v s t l. forget_counter s = forget_counter t \<Longrightarrow> observe_A (f v s l) = observe_A (g v t l)"
  shows "observe_A (case r of Exited c \<Rightarrow> Exited c | Returned v s l \<Rightarrow> f v s l) =
         observe_A (case r' of Exited c \<Rightarrow> Exited c | Returned v s l \<Rightarrow> g v s l)"
proof (cases r)
  case (Exited c)
  then have "r' = Exited c" using assms(1) by (simp add: observe_A_eq_iff)
  then show ?thesis using Exited by simp
next
  case (Returned v s l)
  then obtain t where t: "r' = Returned v t l" and f: "forget_counter s = forget_counter t"
    using assms(1) by (auto simp: observe_A_eq_iff)
  show ?thesis using Returned t assms(2) [OF f] by simp
qed

lemma call_forget:
  assumes "forget_counter s = forget_counter t"
  shows "observe_A (call parseoptions_A fl key arg s log) = observe_A (call parseoptions_A fl key arg t log)"
proof -
  obtain st s' calls where a: "parseoptions_A key arg s = (st, s', calls)"
    by (cases "parseoptions_A key arg s")
  obtain st' t' calls' where b: "parseoptions_A key arg t = (st', t', calls')"
    by (cases "parseoptions_A key arg t")
  have eq: "st' = st" "calls' = calls" "forget_counter s' = forget_counter t'"
    using parseoptions_A_forget [OF assms, of key arg] a b by simp_all
  show ?thesis
    using eq by (simp add: call_def a b observe_A_def split: option.splits)
qed

lemma scan_forget:
  "forget_counter s = forget_counter t \<Longrightarrow>
   observe_A (scan parseoptions_A fl ts n s log) = observe_A (scan parseoptions_A fl ts n t log)"
proof (induction ts arbitrary: n s t log)
  case Nil
  then show ?case by (simp add: observe_A_def)
next
  case (Cons tok ts)
  show ?case
  proof (cases tok)
    case (Option key arg)
    have "observe_A (case call parseoptions_A fl key arg s log of
            Exited code \<Rightarrow> Exited code
          | Returned status s' log' \<Rightarrow>
              if status = 0 then scan parseoptions_A fl ts n s' log' else Returned (status, n) s' log') =
        observe_A (case call parseoptions_A fl key arg t log of
            Exited code \<Rightarrow> Exited code
          | Returned status s' log' \<Rightarrow>
              if status = 0 then scan parseoptions_A fl ts n s' log' else Returned (status, n) s' log')"
    proof (rule observe_A_case [OF call_forget [OF Cons.prems]])
      fix v :: int and s' t' :: "'a parser_A \<times> 'a" and l
      assume f: "forget_counter s' = forget_counter t'"
      show "observe_A (if v = 0 then scan parseoptions_A fl ts n s' l else Returned (v, n) s' l) =
            observe_A (if v = 0 then scan parseoptions_A fl ts n t' l else Returned (v, n) t' l)"
        using Cons.IH [OF f] f by (simp add: observe_A_def)
    qed
    then show ?thesis using Option by simp
  next
    case (Argument a)
    have "observe_A (case call parseoptions_A fl ARGP_KEY_ARG (Some a) s log of
            Exited code \<Rightarrow> Exited code
          | Returned status s' log' \<Rightarrow>
              if status = 0 then scan parseoptions_A fl ts (Suc n) s' log'
              else if status = EBADKEY then
                (case call parseoptions_A fl ARGP_KEY_ARGS None s' log' of
                   Exited code \<Rightarrow> Exited code
                 | Returned status' s'' log'' \<Rightarrow>
                     if status' = 0 then Returned (0, Suc n) s'' log''
                     else Returned (status', n) s'' log'')
              else Returned (status, n) s' log') =
        observe_A (case call parseoptions_A fl ARGP_KEY_ARG (Some a) t log of
            Exited code \<Rightarrow> Exited code
          | Returned status s' log' \<Rightarrow>
              if status = 0 then scan parseoptions_A fl ts (Suc n) s' log'
              else if status = EBADKEY then
                (case call parseoptions_A fl ARGP_KEY_ARGS None s' log' of
                   Exited code \<Rightarrow> Exited code
                 | Returned status' s'' log'' \<Rightarrow>
                     if status' = 0 then Returned (0, Suc n) s'' log''
                     else Returned (status', n) s'' log'')
              else Returned (status, n) s' log')"
    proof (rule observe_A_case [OF call_forget [OF Cons.prems]])
      fix v :: int and s' t' :: "'a parser_A \<times> 'a" and l
      assume f: "forget_counter s' = forget_counter t'"
      have inner: "observe_A (case call parseoptions_A fl ARGP_KEY_ARGS None s' l of
             Exited code \<Rightarrow> Exited code
           | Returned status' s'' log'' \<Rightarrow>
               if status' = 0 then Returned (0, Suc n) s'' log''
               else Returned (status', n) s'' log'') =
          observe_A (case call parseoptions_A fl ARGP_KEY_ARGS None t' l of
             Exited code \<Rightarrow> Exited code
           | Returned status' s'' log'' \<Rightarrow>
               if status' = 0 then Returned (0, Suc n) s'' log''
               else Returned (status', n) s'' log'')"
        by (rule observe_A_case [OF call_forget [OF f]]) (simp add: observe_A_def)
      show "observe_A (if v = 0 then scan parseoptions_A fl ts (Suc n) s' l
              else if v = EBADKEY then
                (case call parseoptions_A fl ARGP_KEY_ARGS None s' l of
                   Exited code \<Rightarrow> Exited code
                 | Returned status' s'' log'' \<Rightarrow>
                     if status' = 0 then Returned (0, Suc n) s'' log''
                     else Returned (status', n) s'' log'')
              else Returned (v, n) s' l) =
            observe_A (if v = 0 then scan parseoptions_A fl ts (Suc n) t' l
              else if v = EBADKEY then
                (case call parseoptions_A fl ARGP_KEY_ARGS None t' l of
                   Exited code \<Rightarrow> Exited code
                 | Returned status' s'' log'' \<Rightarrow>
                     if status' = 0 then Returned (0, Suc n) s'' log''
                     else Returned (status', n) s'' log'')
              else Returned (v, n) t' l)"
        using Cons.IH [OF f] f inner by (simp add: observe_A_def)
    qed
    then show ?thesis using Argument by simp
  next
    case Unrecognized
    then show ?thesis using Cons.prems by (simp add: observe_A_def)
  qed
qed

lemma fini_forget:
  assumes "forget_counter s = forget_counter t"
  shows "observe_A (fini parseoptions_A fl err s log) = observe_A (fini parseoptions_A fl err t log)"
  unfolding fini_def
  by (rule observe_A_case [OF call_forget [OF assms]]) (simp add: observe_A_def)

lemma conclude_forget:
  assumes "forget_counter s = forget_counter t"
  shows "observe_A (conclude parseoptions_A fl err s log) =
         observe_A (conclude parseoptions_A fl err t log)"
proof (cases "err \<noteq> 0")
  case True
  show ?thesis
  proof (cases "if err = EBADKEY then usage_error fl else None")
    case (Some code)
    then show ?thesis using True by (simp add: conclude_def)
  next
    case None
    have "observe_A (case call parseoptions_A fl ARGP_KEY_ERROR None s log of
            Exited code \<Rightarrow> Exited code
          | Returned status s' log' \<Rightarrow> fini parseoptions_A fl err s' log') =
        observe_A (case call parseoptions_A fl ARGP_KEY_ERROR None t log of
            Exited code \<Rightarrow> Exited code
          | Returned status s' log' \<Rightarrow> fini parseoptions_A fl err s' log')"
      by (rule observe_A_case [OF call_forget [OF assms]]) (rule fini_forget)
    then show ?thesis using True None by (simp add: conclude_def)
  qed
next
  case False
  have "observe_A (case call parseoptions_A fl ARGP_KEY_SUCCESS None s log of
          Exited code \<Rightarrow> Exited code
        | Returned status s' log' \<Rightarrow>
            fini parseoptions_A fl (if status = EBADKEY then 0 else status) s' log') =
      observe_A (case call parseoptions_A fl ARGP_KEY_SUCCESS None t log of
          Exited code \<Rightarrow> Exited code
        | Returned status s' log' \<Rightarrow>
            fini parseoptions_A fl (if status = EBADKEY then 0 else status) s' log')"
    by (rule observe_A_case [OF call_forget [OF assms]]) (rule fini_forget)
  then show ?thesis using False by (simp add: conclude_def)
qed

lemma finish_forget:
  assumes "forget_counter s = forget_counter t"
  shows "observe_A (finish parseoptions_A fl err n s log) =
         observe_A (finish parseoptions_A fl err n t log)"
proof (cases "err \<noteq> 0")
  case True
  then show ?thesis using conclude_forget [OF assms] by (simp add: finish_def)
next
  case False
  have first: "observe_A (if n = 0 then call parseoptions_A fl ARGP_KEY_NO_ARGS None s log
                          else Returned 0 s log) =
      observe_A (if n = 0 then call parseoptions_A fl ARGP_KEY_NO_ARGS None t log
                 else Returned 0 t log)"
    using call_forget [OF assms] assms by (simp add: observe_A_def)
  have "observe_A
         (case (if n = 0 then call parseoptions_A fl ARGP_KEY_NO_ARGS None s log else Returned 0 s log) of
            Exited code \<Rightarrow> Exited code
          | Returned status s' log' \<Rightarrow>
              if status \<noteq> 0 \<and> status \<noteq> EBADKEY then conclude parseoptions_A fl status s' log'
              else
                (case call parseoptions_A fl ARGP_KEY_END None s' log' of
                   Exited code \<Rightarrow> Exited code
                 | Returned status' s'' log'' \<Rightarrow>
                     conclude parseoptions_A fl (if status' = EBADKEY then 0 else status') s'' log'')) =
        observe_A
         (case (if n = 0 then call parseoptions_A fl ARGP_KEY_NO_ARGS None t log else Returned 0 t log) of
            Exited code \<Rightarrow> Exited code
          | Returned status s' log' \<Rightarrow>
              if status \<noteq> 0 \<and> status \<noteq> EBADKEY then conclude parseoptions_A fl status s' log'
              else
                (case call parseoptions_A fl ARGP_KEY_END None s' log' of
                   Exited code \<Rightarrow> Exited code
                 | Returned status' s'' log'' \<Rightarrow>
                     conclude parseoptions_A fl (if status' = EBADKEY then 0 else status') s'' log''))"
  proof (rule observe_A_case [OF first])
    fix v :: int and s' t' :: "'a parser_A \<times> 'a" and l
    assume f: "forget_counter s' = forget_counter t'"
    have inner: "observe_A (case call parseoptions_A fl ARGP_KEY_END None s' l of
           Exited code \<Rightarrow> Exited code
         | Returned status' s'' log'' \<Rightarrow>
             conclude parseoptions_A fl (if status' = EBADKEY then 0 else status') s'' log'') =
        observe_A (case call parseoptions_A fl ARGP_KEY_END None t' l of
           Exited code \<Rightarrow> Exited code
         | Returned status' s'' log'' \<Rightarrow>
             conclude parseoptions_A fl (if status' = EBADKEY then 0 else status') s'' log'')"
      by (rule observe_A_case [OF call_forget [OF f]]) (rule conclude_forget)
    show "observe_A (if v \<noteq> 0 \<and> v \<noteq> EBADKEY then conclude parseoptions_A fl v s' l
            else
              (case call parseoptions_A fl ARGP_KEY_END None s' l of
                 Exited code \<Rightarrow> Exited code
               | Returned status' s'' log'' \<Rightarrow>
                   conclude parseoptions_A fl (if status' = EBADKEY then 0 else status') s'' log'')) =
          observe_A (if v \<noteq> 0 \<and> v \<noteq> EBADKEY then conclude parseoptions_A fl v t' l
            else
              (case call parseoptions_A fl ARGP_KEY_END None t' l of
                 Exited code \<Rightarrow> Exited code
               | Returned status' s'' log'' \<Rightarrow>
                   conclude parseoptions_A fl (if status' = EBADKEY then 0 else status') s'' log''))"
      using conclude_forget [OF f] inner by simp
  qed
  then show ?thesis using False by (simp add: finish_def)
qed

lemma argp_parse_forget:
  assumes "forget_counter s = forget_counter t"
  shows "observe_A (argp_parse parseoptions_A fl toks s) = observe_A (argp_parse parseoptions_A fl toks t)"
  unfolding argp_parse_def
proof (rule observe_A_case [OF call_forget [OF assms]])
  fix v :: int and s' t' :: "'a parser_A \<times> 'a" and l
  assume f: "forget_counter s' = forget_counter t'"
  have inner: "observe_A (case scan parseoptions_A fl (schedule fl toks) 0 s' l of
         Exited code \<Rightarrow> Exited code
       | Returned r s'' log' \<Rightarrow> finish parseoptions_A fl (fst r) (snd r) s'' log') =
      observe_A (case scan parseoptions_A fl (schedule fl toks) 0 t' l of
         Exited code \<Rightarrow> Exited code
       | Returned r s'' log' \<Rightarrow> finish parseoptions_A fl (fst r) (snd r) s'' log')"
    by (rule observe_A_case [OF scan_forget [OF f]]) (rule finish_forget)
  show "observe_A (if v \<noteq> 0 \<and> v \<noteq> EBADKEY then Returned v s' l
          else
            (case scan parseoptions_A fl (schedule fl toks) 0 s' l of
               Exited code \<Rightarrow> Exited code
             | Returned r s'' log' \<Rightarrow> finish parseoptions_A fl (fst r) (snd r) s'' log')) =
        observe_A (if v \<noteq> 0 \<and> v \<noteq> EBADKEY then Returned v t' l
          else
            (case scan parseoptions_A fl (schedule fl toks) 0 t' l of
               Exited code \<Rightarrow> Exited code
             | Returned r s'' log' \<Rightarrow> finish parseoptions_A fl (fst r) (snd r) s'' log'))"
    using f inner by (simp add: observe_A_def)
qed

lemma forget_counter_fields:
  assumes "forget_counter s = forget_counter t"
  shows "flags_A (fst s) = flags_A (fst t)"
    and "expected_argument_count_A (fst s) = expected_argument_count_A (fst t)"
    and "arguments_A (fst s) = arguments_A (fst t)"
proof -
  have t: "t = ((fst s)\<lparr>counter_A := counter_A (fst t)\<rparr>, snd s)"
    using forget_counter_eqD [OF assms] .
  show "flags_A (fst s) = flags_A (fst t)" by (subst t) simp
  show "expected_argument_count_A (fst s) = expected_argument_count_A (fst t)" by (subst t) simp
  show "arguments_A (fst s) = arguments_A (fst t)" by (subst t) simp
qed

lemma parse_A_forget:
  assumes "forget_counter s = forget_counter t"
  shows "observe_A (parse_A toks s) = observe_A (parse_A toks t)"
proof -
  have fl: "flags_A (fst s) = flags_A (fst t)"
    using forget_counter_fields(1) [OF assms] .
  have r: "observe_A (argp_parse parseoptions_A (flags_A (fst s)) toks s) =
      observe_A (argp_parse parseoptions_A (flags_A (fst s)) toks t)"
    using argp_parse_forget [OF assms] .
  show ?thesis
  proof (cases "argp_parse parseoptions_A (flags_A (fst s)) toks s")
    case (Exited code)
    then have "argp_parse parseoptions_A (flags_A (fst s)) toks t = Exited code"
      using r by (simp add: observe_A_eq_iff)
    then show ?thesis using Exited fl by (simp add: parse_A_def observe_A_def)
  next
    case (Returned ret s1 l)
    then obtain t1 where t: "argp_parse parseoptions_A (flags_A (fst s)) toks t = Returned ret t1 l"
      and f: "forget_counter s1 = forget_counter t1"
      using r by (auto simp: observe_A_eq_iff)
    show ?thesis
      using Returned t f forget_counter_fields [OF f] fl
      by (simp add: parse_A_def observe_A_def)
  qed
qed

lemma parseoptions_A_init:
  "convert_A p ARGP_KEY_INIT = None \<Longrightarrow>
   parseoptions_A ARGP_KEY_INIT arg (p, d) = (0, (p\<lparr>arguments_A := []\<rparr>, d), [])"
  by (simp add: parseoptions_A_def)

lemma parseoptions_B_init:
  "parseoptions_B ARGP_KEY_INIT arg (q, e) = (0, (q\<lparr>arguments_B := []\<rparr>, e), [])"
  by (simp add: parseoptions_B_def)

lemma argp_parse_A_arguments:
  assumes "convert_A p ARGP_KEY_INIT = None"
  shows "argp_parse parseoptions_A fl toks (p\<lparr>arguments_A := as\<rparr>, d) =
         argp_parse parseoptions_A fl toks (p, d)"
  using assms by (simp add: argp_parse_def call_def parseoptions_A_init)

lemma argp_parse_B_arguments:
  "argp_parse parseoptions_B fl toks (q\<lparr>arguments_B := as\<rparr>, e) =
   argp_parse parseoptions_B fl toks (q, e)"
  by (simp add: argp_parse_def call_def parseoptions_B_init)

subsection \<open>The order of the command line keeps its options\<close>

lemmas key_defs =
  ARGP_KEY_ARG_def ARGP_KEY_ARGS_def ARGP_KEY_END_def ARGP_KEY_NO_ARGS_def ARGP_KEY_INIT_def
  ARGP_KEY_SUCCESS_def ARGP_KEY_ERROR_def ARGP_KEY_FINI_def

lemma option_keys_free_append:
  "option_keys_free (xs @ ys) \<longleftrightarrow> option_keys_free xs \<and> option_keys_free ys"
proof (induction xs)
  case Nil
  show ?case by simp
next
  case (Cons t xs)
  then show ?case by (cases t) simp_all
qed

lemma option_keys_free_filter: "option_keys_free ts \<Longrightarrow> option_keys_free (filter P ts)"
proof (induction ts)
  case Nil
  show ?case by simp
next
  case (Cons t ts)
  then show ?case by (cases t) simp_all
qed

lemma option_keys_free_takeWhile: "option_keys_free ts \<Longrightarrow> option_keys_free (takeWhile P ts)"
proof (induction ts)
  case Nil
  show ?case by simp
next
  case (Cons t ts)
  then show ?case by (cases t) simp_all
qed

lemma schedule_keys_free: "option_keys_free toks \<Longrightarrow> option_keys_free (schedule fl toks)"
  by (simp add: schedule_def option_keys_free_append option_keys_free_filter
      option_keys_free_takeWhile)

subsection \<open>How a parse ends\<close>

lemma fini_nonzero: "err \<noteq> 0 \<Longrightarrow> fini cb fl err s log \<noteq> Returned 0 s' l"
  by (auto simp: fini_def EINVAL_def split: run.splits)

lemma conclude_nonzero: "err \<noteq> 0 \<Longrightarrow> conclude cb fl err s log \<noteq> Returned 0 s' l"
  using fini_nonzero [of err cb fl]
  by (auto simp: conclude_def split: run.splits option.splits)

lemma finish_nonzero: "err \<noteq> 0 \<Longrightarrow> finish cb fl err n s log \<noteq> Returned 0 s' l"
  using conclude_nonzero [of err cb fl] by (simp add: finish_def)

lemma finish_usage: "usage_error fl = Some c \<Longrightarrow> finish cb fl EBADKEY n s log = Exited c"
  by (simp add: finish_def conclude_def EBADKEY_def)

subsection \<open>When \<^verbatim>\<open>parse\<close> of \<^verbatim>\<open>cxx_argp_parser.h\<close> returns \<^verbatim>\<open>true\<close>\<close>

lemma parseoptions_A_lifecycle:
  assumes "reserved_unregistered_A (convert_A p)"
  shows "parseoptions_A ARGP_KEY_NO_ARGS arg (p, d) = (0, (p, d), [])"
    and "parseoptions_A ARGP_KEY_SUCCESS arg (p, d) = (0, (p, d), [])"
    and "parseoptions_A ARGP_KEY_FINI arg (p, d) = (0, (p, d), [])"
  using assms by (simp_all add: parseoptions_A_def reserved_unregistered_A_def key_defs)

lemma parseoptions_A_unknown:
  "convert_A p key = None \<Longrightarrow> \<not> lifecycle_key key \<Longrightarrow> parseoptions_A key arg (p, d) = (0, (p, d), [])"
  by (simp add: parseoptions_A_def lifecycle_key_def)

lemma parseoptions_A_arg:
  "convert_A p ARGP_KEY_ARG = None \<Longrightarrow>
   parseoptions_A ARGP_KEY_ARG (Some a) (p, d) = (0, (p\<lparr>arguments_A := arguments_A p @ [a]\<rparr>, d), [])"
  by (simp add: parseoptions_A_def key_defs)

lemma end_A:
  assumes "convert_A p ARGP_KEY_END = None"
  shows "parseoptions_A ARGP_KEY_END arg (p, d) =
     (0, (p, d),
      if expected_argument_count_A p = - 1 then []
      else if unat (expected_argument_count_A p) < length (arguments_A p)
      then [Argp_failure 1 0 ''too many arguments given'']
      else if length (arguments_A p) < unat (expected_argument_count_A p)
      then [Argp_failure 1 0 ''too few arguments given'']
      else [])"
  using assms by (simp add: parseoptions_A_def key_defs)

lemma call_silent:
  "cb key arg s = (st, s', []) \<Longrightarrow> call cb fl key arg s log = Returned st s' log"
  by (simp add: call_def)

lemma scan_A_ok:
  "convert_A p ARGP_KEY_ARG = None \<Longrightarrow> option_keys_free ts \<Longrightarrow> recognized ts \<Longrightarrow>
   options_ok_A (convert_A p) ts d \<Longrightarrow>
     \<exists>p' d'. scan parseoptions_A fl ts n (p, d) log =
         Returned (0, n + length (positional ts)) (p', d') log \<and>
       arguments_A p' = arguments_A p @ positional ts \<and> convert_A p' = convert_A p \<and>
       expected_argument_count_A p' = expected_argument_count_A p \<and> flags_A p' = flags_A p"
proof (induction ts arbitrary: p d n)
  case Nil
  then show ?case by simp
next
  case (Cons t ts)
  show ?case
  proof (cases t)
    case (Option key arg)
    have k: "\<not> lifecycle_key key" and kf: "option_keys_free ts" and rc: "recognized ts"
      using Cons.prems(2,3) Option by simp_all
    show ?thesis
    proof (cases "convert_A p key")
      case None
      have ok: "options_ok_A (convert_A p) ts d" using Cons.prems(4) Option None by simp
      have c: "call parseoptions_A fl key arg (p, d) log = Returned 0 (p, d) log"
        by (rule call_silent) (rule parseoptions_A_unknown [OF None k])
      obtain p' d' where r:
        "scan parseoptions_A fl ts n (p, d) log = Returned (0, n + length (positional ts)) (p', d') log"
        "arguments_A p' = arguments_A p @ positional ts" "convert_A p' = convert_A p"
        "expected_argument_count_A p' = expected_argument_count_A p" "flags_A p' = flags_A p"
        using Cons.IH [OF Cons.prems(1) kf rc ok, of n] by blast
      show ?thesis using r c Option by simp
    next
      case (Some cv)
      obtain ok d1 where cv: "cv arg d = (ok, d1)" by (cases "cv arg d")
      have okk: "ok" and ok: "options_ok_A (convert_A p) ts d1"
        using Cons.prems(4) Option Some cv by simp_all
      let ?p = "p\<lparr>counter_A := (counter_A p)(key \<mapsto> (case counter_A p key of None \<Rightarrow> 0 | Some c \<Rightarrow> c) + 1)\<rparr>"
      have c: "call parseoptions_A fl key arg (p, d) log = Returned 0 (?p, d1) log"
        by (rule call_silent) (simp add: parseoptions_A_def Some cv okk)
      have a: "convert_A ?p ARGP_KEY_ARG = None" using Cons.prems(1) by simp
      have ok': "options_ok_A (convert_A ?p) ts d1" using ok by simp
      obtain p' d' where r:
        "scan parseoptions_A fl ts n (?p, d1) log = Returned (0, n + length (positional ts)) (p', d') log"
        "arguments_A p' = arguments_A ?p @ positional ts" "convert_A p' = convert_A ?p"
        "expected_argument_count_A p' = expected_argument_count_A ?p" "flags_A p' = flags_A ?p"
        using Cons.IH [OF a kf rc ok', of n] by blast
      show ?thesis using r c Option by simp
    qed
  next
    case (Argument a)
    have kf: "option_keys_free ts" and rc: "recognized ts"
      and ok: "options_ok_A (convert_A p) ts d"
      using Cons.prems(2,3,4) Argument by simp_all
    let ?p = "p\<lparr>arguments_A := arguments_A p @ [a]\<rparr>"
    have c: "call parseoptions_A fl ARGP_KEY_ARG (Some a) (p, d) log = Returned 0 (?p, d) log"
      by (rule call_silent) (rule parseoptions_A_arg [OF Cons.prems(1)])
    have a': "convert_A ?p ARGP_KEY_ARG = None" using Cons.prems(1) by simp
    have ok': "options_ok_A (convert_A ?p) ts d" using ok by simp
    obtain p' d' where r:
      "scan parseoptions_A fl ts (Suc n) (?p, d) log =
         Returned (0, Suc n + length (positional ts)) (p', d') log"
      "arguments_A p' = arguments_A ?p @ positional ts" "convert_A p' = convert_A ?p"
      "expected_argument_count_A p' = expected_argument_count_A ?p" "flags_A p' = flags_A ?p"
      using Cons.IH [OF a' kf rc ok', of "Suc n"] by blast
    show ?thesis using r c Argument by simp
  next
    case Unrecognized
    then show ?thesis using Cons.prems(3) by simp
  qed
qed

text \<open>
  A command line with an element the engine rejects or a text a converter rejects: the
  loop ends the process with the status of a usage error, or it ends with a usage error,
  or, the engine not exiting, with the status \<open>- 1\<close> of the callback.
\<close>

lemma scan_A_bad:
  "convert_A p ARGP_KEY_ARG = None \<Longrightarrow> option_keys_free ts \<Longrightarrow>
   \<not> (recognized ts \<and> options_ok_A (convert_A p) ts d) \<Longrightarrow>
   (case scan parseoptions_A fl ts n (p, d) log of
      Exited c \<Rightarrow> usage_error fl = Some c
    | Returned r s' l \<Rightarrow> fst r = EBADKEY \<or> fst r = - 1 \<and> usage_error fl = None)"
proof (induction ts arbitrary: p d n)
  case Nil
  then show ?case by simp
next
  case (Cons t ts)
  show ?case
  proof (cases t)
    case (Option key arg)
    have k: "\<not> lifecycle_key key" and kf: "option_keys_free ts"
      using Cons.prems(2) Option by simp_all
    show ?thesis
    proof (cases "convert_A p key")
      case None
      have bad: "\<not> (recognized ts \<and> options_ok_A (convert_A p) ts d)"
        using Cons.prems(3) Option None by simp
      have c: "call parseoptions_A fl key arg (p, d) log = Returned 0 (p, d) log"
        by (rule call_silent) (rule parseoptions_A_unknown [OF None k])
      show ?thesis using Cons.IH [OF Cons.prems(1) kf bad, of n] c Option by simp
    next
      case (Some cv)
      obtain ok d1 where cv: "cv arg d = (ok, d1)" by (cases "cv arg d")
      let ?p = "p\<lparr>counter_A := (counter_A p)(key \<mapsto> (case counter_A p key of None \<Rightarrow> 0 | Some c \<Rightarrow> c) + 1)\<rparr>"
      show ?thesis
      proof (cases ok)
        case True
        have c: "call parseoptions_A fl key arg (p, d) log = Returned 0 (?p, d1) log"
          by (rule call_silent) (simp add: parseoptions_A_def Some cv True)
        have a: "convert_A ?p ARGP_KEY_ARG = None" using Cons.prems(1) by simp
        have bad: "\<not> (recognized ts \<and> options_ok_A (convert_A ?p) ts d1)"
          using Cons.prems(3) Option Some cv True by simp
        show ?thesis using Cons.IH [OF a kf bad, of n] c Option by simp
      next
        case False
        have st: "parseoptions_A key arg (p, d) = (- 1, (?p, d1), [Argp_error (not_usable arg key)])"
          by (simp add: parseoptions_A_def Some cv False)
        show ?thesis
          using Option by (simp add: call_def st engine_exit_def split: option.splits)
      qed
    qed
  next
    case (Argument a)
    have kf: "option_keys_free ts" using Cons.prems(2) Argument by simp
    let ?p = "p\<lparr>arguments_A := arguments_A p @ [a]\<rparr>"
    have c: "call parseoptions_A fl ARGP_KEY_ARG (Some a) (p, d) log = Returned 0 (?p, d) log"
      by (rule call_silent) (rule parseoptions_A_arg [OF Cons.prems(1)])
    have a': "convert_A ?p ARGP_KEY_ARG = None" using Cons.prems(1) by simp
    have bad: "\<not> (recognized ts \<and> options_ok_A (convert_A ?p) ts d)"
      using Cons.prems(3) Argument by simp
    show ?thesis using Cons.IH [OF a' kf bad, of "Suc n"] c Argument by simp
  next
    case Unrecognized
    then show ?thesis by simp
  qed
qed

lemma finish_A_zero:
  assumes "reserved_unregistered_A (convert_A p)"
  shows "finish parseoptions_A fl 0 n (p, d) log =
     (case first_exit fl (snd (snd (parseoptions_A ARGP_KEY_END None (p, d)))) of
        Some c \<Rightarrow> Exited c
      | None \<Rightarrow> Returned 0 (p, d) (log @ snd (snd (parseoptions_A ARGP_KEY_END None (p, d)))))"
proof -
  have e: "convert_A p ARGP_KEY_END = None"
    using assms by (simp add: reserved_unregistered_A_def)
  obtain calls where en: "parseoptions_A ARGP_KEY_END None (p, d) = (0, (p, d), calls)"
    using end_A [OF e, of None d] by simp
  show ?thesis
    by (simp add: finish_def conclude_def fini_def call_def parseoptions_A_lifecycle [OF assms] en
        EBADKEY_def split: option.splits)
qed

lemma argp_parse_A_unfold:
  assumes "reserved_unregistered_A (convert_A p)"
  shows "argp_parse parseoptions_A fl toks (p, d) =
     (case scan parseoptions_A fl (schedule fl toks) 0 (p\<lparr>arguments_A := []\<rparr>, d) [] of
        Exited code \<Rightarrow> Exited code
      | Returned r s' l \<Rightarrow> finish parseoptions_A fl (fst r) (snd r) s' l)"
proof -
  have "convert_A p ARGP_KEY_INIT = None"
    using assms by (simp add: reserved_unregistered_A_def)
  then show ?thesis by (simp add: argp_parse_def call_def parseoptions_A_init)
qed

lemma argp_parse_A_zero:
  assumes r: "reserved_unregistered_A (convert_A p)" and kf: "option_keys_free toks"
    and z: "argp_parse parseoptions_A fl toks (p, d) = Returned 0 s' log"
  shows "recognized (schedule fl toks) \<and> options_ok_A (convert_A p) (schedule fl toks) d \<and>
         arguments_A (fst s') = positional (schedule fl toks)"
proof -
  let ?p = "p\<lparr>arguments_A := []\<rparr>"
  let ?S = "schedule fl toks"
  have a: "convert_A ?p ARGP_KEY_ARG = None"
    using r by (simp add: reserved_unregistered_A_def)
  have kS: "option_keys_free ?S" using schedule_keys_free [OF kf] .
  obtain q s1 l1 where sc: "scan parseoptions_A fl ?S 0 (?p, d) [] = Returned q s1 l1"
    and fi: "finish parseoptions_A fl (fst q) (snd q) s1 l1 = Returned 0 s' log"
    using z unfolding argp_parse_A_unfold [OF r] by (auto split: run.splits)
  have q0: "fst q = 0"
    using fi finish_nonzero [of "fst q" parseoptions_A fl "snd q" s1 l1 s' log] by blast
  have good: "recognized ?S \<and> options_ok_A (convert_A ?p) ?S d"
  proof (rule ccontr)
    assume "\<not> (recognized ?S \<and> options_ok_A (convert_A ?p) ?S d)"
    then show False
      using scan_A_bad [OF a kS, of d fl 0 "[]"] sc q0 by (simp add: EBADKEY_def)
  qed
  obtain p' d' where m: "scan parseoptions_A fl ?S 0 (?p, d) [] =
      Returned (0, 0 + length (positional ?S)) (p', d') []"
    "arguments_A p' = arguments_A ?p @ positional ?S" "convert_A p' = convert_A ?p"
    using scan_A_ok [OF a kS, of d fl 0 "[]"] good by blast
  have s1: "s1 = (p', d')" and q: "q = (0, length (positional ?S))" and l1: "l1 = []"
    using sc m(1) by simp_all
  have r': "reserved_unregistered_A (convert_A p')" using m(3) r by simp
  have "s' = (p', d')"
    using fi unfolding s1 q l1 by (auto simp: finish_A_zero [OF r'] split: option.splits)
  then show ?thesis using good m(2) by simp
qed

lemma argp_parse_A_ok:
  assumes r: "reserved_unregistered_A (convert_A p)" and kf: "option_keys_free toks"
    and rc: "recognized (schedule fl toks)"
    and ok: "options_ok_A (convert_A p) (schedule fl toks) d"
    and n: "expected_argument_count_A p = - 1 \<or>
            length (positional (schedule fl toks)) = unat (expected_argument_count_A p)"
  shows "\<exists>s'. argp_parse parseoptions_A fl toks (p, d) = Returned 0 s' [] \<and>
     arguments_A (fst s') = positional (schedule fl toks)"
proof -
  let ?p = "p\<lparr>arguments_A := []\<rparr>"
  let ?S = "schedule fl toks"
  have a: "convert_A ?p ARGP_KEY_ARG = None"
    using r by (simp add: reserved_unregistered_A_def)
  have kS: "option_keys_free ?S" using schedule_keys_free [OF kf] .
  have ok': "options_ok_A (convert_A ?p) ?S d" using ok by simp
  obtain p' d' where m: "scan parseoptions_A fl ?S 0 (?p, d) [] =
      Returned (0, 0 + length (positional ?S)) (p', d') []"
    "arguments_A p' = arguments_A ?p @ positional ?S" "convert_A p' = convert_A ?p"
    "expected_argument_count_A p' = expected_argument_count_A ?p"
    using scan_A_ok [OF a kS rc ok', of fl 0 "[]"] by blast
  have r': "reserved_unregistered_A (convert_A p')" using m(3) r by simp
  have ce: "convert_A p' ARGP_KEY_END = None"
    using r' by (simp add: reserved_unregistered_A_def)
  have e: "parseoptions_A ARGP_KEY_END None (p', d') = (0, (p', d'), [])"
    using n m(2) m(4) by (auto simp: end_A [OF ce])
  have "argp_parse parseoptions_A fl toks (p, d) = Returned 0 (p', d') []"
    unfolding argp_parse_A_unfold [OF r] using m(1) by (simp add: finish_A_zero [OF r'] e)
  then show ?thesis using m(2) by simp
qed

lemma parse_A_True_iff:
  assumes "flags_A p AND ARGP_NO_ERRS = 0"
  shows "parse_A toks (p, d) = Returned True s' log \<longleftrightarrow>
     argp_parse parseoptions_A (flags_A p) toks (p, d) = Returned 0 s' log \<and>
     (expected_argument_count_A p = - 1 \<or>
      unat (expected_argument_count_A p) = length (arguments_A (fst s')))"
proof (cases "argp_parse parseoptions_A (flags_A p) toks (p, d)")
  case (Exited code)
  then show ?thesis by (simp add: parse_A_def)
next
  case (Returned ret s1 l)
  have k: "flags_A (fst s1) = flags_A p" "expected_argument_count_A (fst s1) = expected_argument_count_A p"
    using argp_parse_A_keeps [OF Returned] by simp_all
  show ?thesis
    using Returned k assms by (auto simp: parse_A_def help_unless_def)
qed

lemma parse_A_success_iff:
  assumes r: "reserved_unregistered_A (convert_A p)" and kf: "option_keys_free toks"
    and ne: "flags_A p AND ARGP_NO_ERRS = 0"
  shows "(\<exists>s' log. parse_A toks (p, d) = Returned True s' log) \<longleftrightarrow>
     recognized (schedule (flags_A p) toks) \<and>
     options_ok_A (convert_A p) (schedule (flags_A p) toks) d \<and>
     (expected_argument_count_A p = - 1 \<or>
      length (positional (schedule (flags_A p) toks)) = unat (expected_argument_count_A p))"
proof
  assume "\<exists>s' log. parse_A toks (p, d) = Returned True s' log"
  then obtain s' log where t: "parse_A toks (p, d) = Returned True s' log" by blast
  have z: "argp_parse parseoptions_A (flags_A p) toks (p, d) = Returned 0 s' log"
    and n: "expected_argument_count_A p = - 1 \<or>
      unat (expected_argument_count_A p) = length (arguments_A (fst s'))"
    using t parse_A_True_iff [OF ne, of toks d s' log] by simp_all
  show "recognized (schedule (flags_A p) toks) \<and>
     options_ok_A (convert_A p) (schedule (flags_A p) toks) d \<and>
     (expected_argument_count_A p = - 1 \<or>
      length (positional (schedule (flags_A p) toks)) = unat (expected_argument_count_A p))"
    using argp_parse_A_zero [OF r kf z] n by auto
next
  assume h: "recognized (schedule (flags_A p) toks) \<and>
     options_ok_A (convert_A p) (schedule (flags_A p) toks) d \<and>
     (expected_argument_count_A p = - 1 \<or>
      length (positional (schedule (flags_A p) toks)) = unat (expected_argument_count_A p))"
  obtain s' where z: "argp_parse parseoptions_A (flags_A p) toks (p, d) = Returned 0 s' []"
    and a: "arguments_A (fst s') = positional (schedule (flags_A p) toks)"
    using argp_parse_A_ok [OF r kf, of "flags_A p" d] h by blast
  have "parse_A toks (p, d) = Returned True s' []"
    using parse_A_True_iff [OF ne, of toks d s' "[]"] z a h by auto
  then show "\<exists>s' log. parse_A toks (p, d) = Returned True s' log" by blast
qed

text \<open>
  With neither \<^verbatim>\<open>ARGP_NO_ERRS\<close> nor \<^verbatim>\<open>ARGP_NO_EXIT\<close> set the process ends: with the
  status of a usage error when the engine or a converter rejects something, with status
  1 when all that is fine and the number of positional arguments is not the expected one.
\<close>

lemma usage_error_loud:
  "fl AND ARGP_NO_ERRS = 0 \<Longrightarrow> fl AND ARGP_NO_EXIT = 0 \<Longrightarrow> usage_error fl = Some argp_err_exit_status"
  by (simp add: usage_error_def)

lemma parse_A_exit_usage:
  assumes r: "reserved_unregistered_A (convert_A p)" and kf: "option_keys_free toks"
    and ne: "flags_A p AND ARGP_NO_ERRS = 0" and nx: "flags_A p AND ARGP_NO_EXIT = 0"
    and bad: "\<not> (recognized (schedule (flags_A p) toks) \<and>
                 options_ok_A (convert_A p) (schedule (flags_A p) toks) d)"
  shows "parse_A toks (p, d) = Exited argp_err_exit_status"
proof -
  let ?p = "p\<lparr>arguments_A := []\<rparr>"
  let ?S = "schedule (flags_A p) toks"
  have a: "convert_A ?p ARGP_KEY_ARG = None"
    using r by (simp add: reserved_unregistered_A_def)
  have kS: "option_keys_free ?S" using schedule_keys_free [OF kf] .
  have u: "usage_error (flags_A p) = Some argp_err_exit_status"
    using usage_error_loud [OF ne nx] .
  have bad': "\<not> (recognized ?S \<and> options_ok_A (convert_A ?p) ?S d)" using bad by simp
  have "argp_parse parseoptions_A (flags_A p) toks (p, d) = Exited argp_err_exit_status"
  proof (cases "scan parseoptions_A (flags_A p) ?S 0 (?p, d) []")
    case (Exited c)
    then have "c = argp_err_exit_status"
      using scan_A_bad [OF a kS bad', of "flags_A p" 0 "[]"] u by simp
    then show ?thesis using Exited by (simp add: argp_parse_A_unfold [OF r])
  next
    case (Returned q s1 l1)
    then have "fst q = EBADKEY"
      using scan_A_bad [OF a kS bad', of "flags_A p" 0 "[]"] u by simp
    then show ?thesis
      using Returned finish_usage [OF u, of parseoptions_A "snd q" s1 l1]
      by (simp add: argp_parse_A_unfold [OF r])
  qed
  then show ?thesis by (simp add: parse_A_def)
qed

lemma parse_A_exit_arity:
  assumes r: "reserved_unregistered_A (convert_A p)" and kf: "option_keys_free toks"
    and ne: "flags_A p AND ARGP_NO_ERRS = 0" and nx: "flags_A p AND ARGP_NO_EXIT = 0"
    and rc: "recognized (schedule (flags_A p) toks)"
    and ok: "options_ok_A (convert_A p) (schedule (flags_A p) toks) d"
    and n: "expected_argument_count_A p \<noteq> - 1"
      "length (positional (schedule (flags_A p) toks)) \<noteq> unat (expected_argument_count_A p)"
  shows "parse_A toks (p, d) = Exited 1"
proof -
  let ?p = "p\<lparr>arguments_A := []\<rparr>"
  let ?S = "schedule (flags_A p) toks"
  have a: "convert_A ?p ARGP_KEY_ARG = None"
    using r by (simp add: reserved_unregistered_A_def)
  have kS: "option_keys_free ?S" using schedule_keys_free [OF kf] .
  have ok': "options_ok_A (convert_A ?p) ?S d" using ok by simp
  obtain p' d' where m: "scan parseoptions_A (flags_A p) ?S 0 (?p, d) [] =
      Returned (0, 0 + length (positional ?S)) (p', d') []"
    "arguments_A p' = arguments_A ?p @ positional ?S" "convert_A p' = convert_A ?p"
    "expected_argument_count_A p' = expected_argument_count_A ?p"
    using scan_A_ok [OF a kS rc ok', of "flags_A p" 0 "[]"] by blast
  have r': "reserved_unregistered_A (convert_A p')" using m(3) r by simp
  have ce: "convert_A p' ARGP_KEY_END = None"
    using r' by (simp add: reserved_unregistered_A_def)
  have e: "\<exists>msg. parseoptions_A ARGP_KEY_END None (p', d') = (0, (p', d'), [Argp_failure 1 0 msg])"
    using n m(2) m(4) by (auto simp: end_A [OF ce])
  have "argp_parse parseoptions_A (flags_A p) toks (p, d) = Exited 1"
    unfolding argp_parse_A_unfold [OF r] using m(1) e ne nx
    by (auto simp: finish_A_zero [OF r'] engine_exit_def)
  then show ?thesis by (simp add: parse_A_def)
qed

subsection \<open>When \<^verbatim>\<open>parse\<close> of \<^verbatim>\<open>part_000\<close> returns \<^verbatim>\<open>true\<close>\<close>

lemma parseoptions_B_lifecycle:
  assumes "reserved_unregistered_B (convert_B q)"
  shows "parseoptions_B ARGP_KEY_NO_ARGS arg (q, e) = (0, (q, e), [])"
    and "parseoptions_B ARGP_KEY_SUCCESS arg (q, e) = (0, (q, e), [])"
    and "parseoptions_B ARGP_KEY_FINI arg (q, e) = (0, (q, e), [])"
  using assms by (simp_all add: parseoptions_B_def reserved_unregistered_B_def key_defs)

lemma parseoptions_B_option:
  "\<not> lifecycle_key key \<Longrightarrow>
   parseoptions_B key arg (q, e) =
     (case convert_B q key of
        Some option \<Rightarrow> (case option key arg e of (status, e', calls) \<Rightarrow> (status, (q, e'), calls))
      | None \<Rightarrow> (0, (q, e), []))"
  by (simp add: parseoptions_B_def lifecycle_key_def)

lemma parseoptions_B_arg:
  "parseoptions_B ARGP_KEY_ARG (Some a) (q, e) = (0, (q\<lparr>arguments_B := arguments_B q @ [a]\<rparr>, e), [])"
  by (simp add: parseoptions_B_def key_defs)

lemma end_B:
  "parseoptions_B ARGP_KEY_END arg (q, e) =
     (0, (q, e),
      if expected_argument_count_B q = - 1 then []
      else if unat (expected_argument_count_B q) < length (arguments_B q)
      then [Argp_error ''too many arguments given'']
      else if length (arguments_B q) < unat (expected_argument_count_B q)
      then [Argp_error ''too few arguments given'']
      else [])"
  by (simp add: parseoptions_B_def key_defs)

lemma scan_B_ok:
  "option_keys_free ts \<Longrightarrow> recognized ts \<Longrightarrow> options_ok_B fl (convert_B q) ts e \<Longrightarrow>
     \<exists>e' l'. scan parseoptions_B fl ts n (q, e) log =
       Returned (0, n + length (positional ts)) (q\<lparr>arguments_B := arguments_B q @ positional ts\<rparr>, e') l'"
proof (induction ts arbitrary: q e n log)
  case Nil
  then show ?case by simp
next
  case (Cons t ts)
  show ?case
  proof (cases t)
    case (Option key arg)
    have k: "\<not> lifecycle_key key" and kf: "option_keys_free ts" and rc: "recognized ts"
      using Cons.prems(1,2) Option by simp_all
    show ?thesis
    proof (cases "convert_B q key")
      case None
      have ok: "options_ok_B fl (convert_B q) ts e" using Cons.prems(3) Option None by simp
      have c: "call parseoptions_B fl key arg (q, e) log = Returned 0 (q, e) log"
        by (rule call_silent) (simp add: parseoptions_B_option [OF k] None)
      obtain e' l' where r: "scan parseoptions_B fl ts n (q, e) log =
          Returned (0, n + length (positional ts)) (q\<lparr>arguments_B := arguments_B q @ positional ts\<rparr>, e') l'"
        using Cons.IH [OF kf rc ok, of n log] by blast
      show ?thesis using r c Option by simp
    next
      case (Some cv)
      obtain st e1 calls where cv: "cv key arg e = (st, e1, calls)" by (cases "cv key arg e")
      have st: "st = 0" "first_exit fl calls = None" and ok: "options_ok_B fl (convert_B q) ts e1"
        using Cons.prems(3) Option Some cv by simp_all
      have c: "call parseoptions_B fl key arg (q, e) log = Returned 0 (q, e1) (log @ calls)"
        by (simp add: call_def parseoptions_B_option [OF k] Some cv st)
      obtain e' l' where r: "scan parseoptions_B fl ts n (q, e1) (log @ calls) =
          Returned (0, n + length (positional ts)) (q\<lparr>arguments_B := arguments_B q @ positional ts\<rparr>, e') l'"
        using Cons.IH [OF kf rc ok, of n "log @ calls"] by blast
      show ?thesis using r c Option by simp
    qed
  next
    case (Argument a)
    have kf: "option_keys_free ts" and rc: "recognized ts"
      using Cons.prems(1,2) Argument by simp_all
    let ?q = "q\<lparr>arguments_B := arguments_B q @ [a]\<rparr>"
    have ok: "options_ok_B fl (convert_B ?q) ts e" using Cons.prems(3) Argument by simp
    have c: "call parseoptions_B fl ARGP_KEY_ARG (Some a) (q, e) log = Returned 0 (?q, e) log"
      by (rule call_silent) (rule parseoptions_B_arg)
    obtain e' l' where r: "scan parseoptions_B fl ts (Suc n) (?q, e) log =
        Returned (0, Suc n + length (positional ts))
          (?q\<lparr>arguments_B := arguments_B ?q @ positional ts\<rparr>, e') l'"
      using Cons.IH [OF kf rc ok, of "Suc n" log] by blast
    show ?thesis using r c Argument by simp
  next
    case Unrecognized
    then show ?thesis using Cons.prems(2) by simp
  qed
qed

lemma scan_B_bad:
  "option_keys_free ts \<Longrightarrow> \<not> (recognized ts \<and> options_ok_B fl (convert_B q) ts e) \<Longrightarrow>
   scan parseoptions_B fl ts n (q, e) log \<noteq> Returned (0, m) s' l"
proof (induction ts arbitrary: q e n log)
  case Nil
  then show ?case by simp
next
  case (Cons t ts)
  show ?case
  proof (cases t)
    case (Option key arg)
    have k: "\<not> lifecycle_key key" and kf: "option_keys_free ts"
      using Cons.prems(1) Option by simp_all
    show ?thesis
    proof (cases "convert_B q key")
      case None
      have bad: "\<not> (recognized ts \<and> options_ok_B fl (convert_B q) ts e)"
        using Cons.prems(2) Option None by simp
      have c: "call parseoptions_B fl key arg (q, e) log = Returned 0 (q, e) log"
        by (rule call_silent) (simp add: parseoptions_B_option [OF k] None)
      show ?thesis using Cons.IH [OF kf bad, of n log] c Option by simp
    next
      case (Some cv)
      obtain st e1 calls where cv: "cv key arg e = (st, e1, calls)" by (cases "cv key arg e")
      have step: "parseoptions_B key arg (q, e) = (st, (q, e1), calls)"
        by (simp add: parseoptions_B_option [OF k] Some cv)
      show ?thesis
      proof (cases "st = 0 \<and> first_exit fl calls = None")
        case True
        have bad: "\<not> (recognized ts \<and> options_ok_B fl (convert_B q) ts e1)"
          using Cons.prems(2) Option Some cv True by simp
        have c: "call parseoptions_B fl key arg (q, e) log = Returned 0 (q, e1) (log @ calls)"
          using True by (simp add: call_def step)
        show ?thesis using Cons.IH [OF kf bad, of n "log @ calls"] c Option by simp
      next
        case False
        then show ?thesis
          using Option by (auto simp: call_def step split: option.splits)
      qed
    qed
  next
    case (Argument a)
    have kf: "option_keys_free ts" using Cons.prems(1) Argument by simp
    let ?q = "q\<lparr>arguments_B := arguments_B q @ [a]\<rparr>"
    have c: "call parseoptions_B fl ARGP_KEY_ARG (Some a) (q, e) log = Returned 0 (?q, e) log"
      by (rule call_silent) (rule parseoptions_B_arg)
    have bad: "\<not> (recognized ts \<and> options_ok_B fl (convert_B ?q) ts e)"
      using Cons.prems(2) Argument by simp
    show ?thesis using Cons.IH [OF kf bad, of "Suc n" log] c Argument by simp
  next
    case Unrecognized
    then show ?thesis by (simp add: EBADKEY_def)
  qed
qed

lemma finish_B_zero:
  assumes "reserved_unregistered_B (convert_B q)"
  shows "finish parseoptions_B fl 0 n (q, e) log =
     (case first_exit fl (snd (snd (parseoptions_B ARGP_KEY_END None (q, e)))) of
        Some c \<Rightarrow> Exited c
      | None \<Rightarrow> Returned 0 (q, e) (log @ snd (snd (parseoptions_B ARGP_KEY_END None (q, e)))))"
proof -
  obtain calls where en: "parseoptions_B ARGP_KEY_END None (q, e) = (0, (q, e), calls)"
    using end_B [of None q e] by simp
  show ?thesis
    by (simp add: finish_def conclude_def fini_def call_def parseoptions_B_lifecycle [OF assms] en
        EBADKEY_def split: option.splits)
qed

lemma argp_parse_B_unfold:
  "argp_parse parseoptions_B fl toks (q, e) =
     (case scan parseoptions_B fl (schedule fl toks) 0 (q\<lparr>arguments_B := []\<rparr>, e) [] of
        Exited code \<Rightarrow> Exited code
      | Returned r s' l \<Rightarrow> finish parseoptions_B fl (fst r) (snd r) s' l)"
  by (simp add: argp_parse_def call_def parseoptions_B_init)

lemma argp_parse_B_zero:
  assumes r: "reserved_unregistered_B (convert_B q)" and kf: "option_keys_free toks"
    and z: "argp_parse parseoptions_B fl toks (q, e) = Returned 0 s' log"
  shows "recognized (schedule fl toks) \<and> options_ok_B fl (convert_B q) (schedule fl toks) e \<and>
         arguments_B (fst s') = positional (schedule fl toks)"
proof -
  let ?q = "q\<lparr>arguments_B := []\<rparr>"
  let ?S = "schedule fl toks"
  have kS: "option_keys_free ?S" using schedule_keys_free [OF kf] .
  obtain u s1 l1 where sc: "scan parseoptions_B fl ?S 0 (?q, e) [] = Returned u s1 l1"
    and fi: "finish parseoptions_B fl (fst u) (snd u) s1 l1 = Returned 0 s' log"
    using z unfolding argp_parse_B_unfold by (auto split: run.splits)
  have u0: "fst u = 0"
    using fi finish_nonzero [of "fst u" parseoptions_B fl "snd u" s1 l1 s' log] by blast
  have good: "recognized ?S \<and> options_ok_B fl (convert_B ?q) ?S e"
  proof (rule ccontr)
    assume "\<not> (recognized ?S \<and> options_ok_B fl (convert_B ?q) ?S e)"
    then show False
      using scan_B_bad [OF kS, of fl ?q e 0 "[]" "snd u" s1 l1] sc u0
      by (cases u) simp
  qed
  let ?q' = "q\<lparr>arguments_B := positional ?S\<rparr>"
  obtain e' l' where "scan parseoptions_B fl ?S 0 (?q, e) [] =
      Returned (0, 0 + length (positional ?S)) (?q\<lparr>arguments_B := arguments_B ?q @ positional ?S\<rparr>, e') l'"
    using scan_B_ok [OF kS, of fl ?q e 0 "[]"] good by blast
  then have m: "scan parseoptions_B fl ?S 0 (?q, e) [] = Returned (0, length (positional ?S)) (?q', e') l'"
    by simp
  have s1: "s1 = (?q', e')" and u: "u = (0, length (positional ?S))" and l1: "l1 = l'"
    using sc m by simp_all
  have r': "reserved_unregistered_B (convert_B ?q')"
    using r by simp
  have "finish parseoptions_B fl 0 (length (positional ?S)) (?q', e') l' = Returned 0 s' log"
    using fi unfolding s1 u l1 by simp
  then have "s' = (?q', e')"
    unfolding finish_B_zero [OF r'] by (auto split: option.splits)
  then show ?thesis using good by simp
qed

lemma argp_parse_B_ok:
  assumes r: "reserved_unregistered_B (convert_B q)" and kf: "option_keys_free toks"
    and rc: "recognized (schedule fl toks)"
    and ok: "options_ok_B fl (convert_B q) (schedule fl toks) e"
    and n: "expected_argument_count_B q = - 1 \<or>
            length (positional (schedule fl toks)) = unat (expected_argument_count_B q)"
  shows "\<exists>s' l. argp_parse parseoptions_B fl toks (q, e) = Returned 0 s' l \<and>
     arguments_B (fst s') = positional (schedule fl toks)"
proof -
  let ?q = "q\<lparr>arguments_B := []\<rparr>"
  let ?S = "schedule fl toks"
  let ?q' = "q\<lparr>arguments_B := positional ?S\<rparr>"
  have kS: "option_keys_free ?S" using schedule_keys_free [OF kf] .
  have ok': "options_ok_B fl (convert_B ?q) ?S e" using ok by simp
  obtain e' l' where "scan parseoptions_B fl ?S 0 (?q, e) [] =
      Returned (0, 0 + length (positional ?S)) (?q\<lparr>arguments_B := arguments_B ?q @ positional ?S\<rparr>, e') l'"
    using scan_B_ok [OF kS rc ok', of 0 "[]"] by blast
  then have m: "scan parseoptions_B fl ?S 0 (?q, e) [] = Returned (0, length (positional ?S)) (?q', e') l'"
    by simp
  have r': "reserved_unregistered_B (convert_B ?q')" using r by simp
  have en: "parseoptions_B ARGP_KEY_END None (?q', e') = (0, (?q', e'), [])"
    using n by (auto simp: end_B)
  have fi: "finish parseoptions_B fl 0 (length (positional ?S)) (?q', e') l' = Returned 0 (?q', e') l'"
    unfolding finish_B_zero [OF r'] en by simp
  have "argp_parse parseoptions_B fl toks (q, e) = Returned 0 (?q', e') l'"
    unfolding argp_parse_B_unfold m using fi by simp
  then show ?thesis by simp
qed

lemma parse_B_True_iff:
  assumes "flags_B q AND ARGP_NO_ERRS = 0"
  shows "parse_B toks (q, e) = Returned True s' log \<longleftrightarrow>
     argp_parse parseoptions_B (flags_B q) toks (q, e) = Returned 0 s' log \<and>
     (expected_argument_count_B q = - 1 \<or>
      unat (expected_argument_count_B q) = length (arguments_B (fst s')))"
proof (cases "argp_parse parseoptions_B (flags_B q) toks (q, e)")
  case (Exited code)
  then show ?thesis by (simp add: parse_B_def)
next
  case (Returned ret s1 l)
  have k: "flags_B (fst s1) = flags_B q" "expected_argument_count_B (fst s1) = expected_argument_count_B q"
    using argp_parse_B_keeps [OF Returned] by simp_all
  show ?thesis
    using Returned k assms by (auto simp: parse_B_def help_unless_def)
qed

lemma parse_B_success_iff:
  assumes r: "reserved_unregistered_B (convert_B q)" and kf: "option_keys_free toks"
    and ne: "flags_B q AND ARGP_NO_ERRS = 0"
  shows "(\<exists>s' log. parse_B toks (q, e) = Returned True s' log) \<longleftrightarrow>
     recognized (schedule (flags_B q) toks) \<and>
     options_ok_B (flags_B q) (convert_B q) (schedule (flags_B q) toks) e \<and>
     (expected_argument_count_B q = - 1 \<or>
      length (positional (schedule (flags_B q) toks)) = unat (expected_argument_count_B q))"
proof
  assume "\<exists>s' log. parse_B toks (q, e) = Returned True s' log"
  then obtain s' log where t: "parse_B toks (q, e) = Returned True s' log" by blast
  have z: "argp_parse parseoptions_B (flags_B q) toks (q, e) = Returned 0 s' log"
    and n: "expected_argument_count_B q = - 1 \<or>
      unat (expected_argument_count_B q) = length (arguments_B (fst s'))"
    using t parse_B_True_iff [OF ne, of toks e s' log] by simp_all
  show "recognized (schedule (flags_B q) toks) \<and>
     options_ok_B (flags_B q) (convert_B q) (schedule (flags_B q) toks) e \<and>
     (expected_argument_count_B q = - 1 \<or>
      length (positional (schedule (flags_B q) toks)) = unat (expected_argument_count_B q))"
    using argp_parse_B_zero [OF r kf z] n by auto
next
  assume h: "recognized (schedule (flags_B q) toks) \<and>
     options_ok_B (flags_B q) (convert_B q) (schedule (flags_B q) toks) e \<and>
     (expected_argument_count_B q = - 1 \<or>
      length (positional (schedule (flags_B q) toks)) = unat (expected_argument_count_B q))"
  obtain s' l where z: "argp_parse parseoptions_B (flags_B q) toks (q, e) = Returned 0 s' l"
    and a: "arguments_B (fst s') = positional (schedule (flags_B q) toks)"
    using argp_parse_B_ok [OF r kf, of "flags_B q" e] h by blast
  have "parse_B toks (q, e) = Returned True s' l"
    using parse_B_True_iff [OF ne, of toks e s' l] z a h by auto
  then show "\<exists>s' log. parse_B toks (q, e) = Returned True s' log" by blast
qed

lemma parse_B_exit_arity:
  assumes r: "reserved_unregistered_B (convert_B q)" and kf: "option_keys_free toks"
    and ne: "flags_B q AND ARGP_NO_ERRS = 0" and nx: "flags_B q AND ARGP_NO_EXIT = 0"
    and rc: "recognized (schedule (flags_B q) toks)"
    and ok: "options_ok_B (flags_B q) (convert_B q) (schedule (flags_B q) toks) e"
    and n: "expected_argument_count_B q \<noteq> - 1"
      "length (positional (schedule (flags_B q) toks)) \<noteq> unat (expected_argument_count_B q)"
  shows "parse_B toks (q, e) = Exited argp_err_exit_status"
proof -
  let ?q = "q\<lparr>arguments_B := []\<rparr>"
  let ?S = "schedule (flags_B q) toks"
  let ?q' = "q\<lparr>arguments_B := positional ?S\<rparr>"
  have kS: "option_keys_free ?S" using schedule_keys_free [OF kf] .
  have ok': "options_ok_B (flags_B q) (convert_B ?q) ?S e" using ok by simp
  obtain e' l' where "scan parseoptions_B (flags_B q) ?S 0 (?q, e) [] =
      Returned (0, 0 + length (positional ?S)) (?q\<lparr>arguments_B := arguments_B ?q @ positional ?S\<rparr>, e') l'"
    using scan_B_ok [OF kS rc ok', of 0 "[]"] by blast
  then have m: "scan parseoptions_B (flags_B q) ?S 0 (?q, e) [] =
      Returned (0, length (positional ?S)) (?q', e') l'"
    by simp
  have r': "reserved_unregistered_B (convert_B ?q')" using r by simp
  have "\<exists>msg. parseoptions_B ARGP_KEY_END None (?q', e') = (0, (?q', e'), [Argp_error msg])"
    using n by (auto simp: end_B)
  then obtain msg where en:
    "parseoptions_B ARGP_KEY_END None (?q', e') = (0, (?q', e'), [Argp_error msg])"
    by blast
  have fi: "finish parseoptions_B (flags_B q) 0 (length (positional ?S)) (?q', e') l' =
      Exited argp_err_exit_status"
    unfolding finish_B_zero [OF r'] en using ne nx by (simp add: engine_exit_def usage_error_def)
  have "argp_parse parseoptions_B (flags_B q) toks (q, e) = Exited argp_err_exit_status"
    unfolding argp_parse_B_unfold m using fi by simp
  then show ?thesis by (simp add: parse_B_def)
qed

subsection \<open>\<^verbatim>\<open>parse\<close> returns when the engine does\<close>

lemma parse_A_returns:
  "argp_parse parseoptions_A (flags_A p) toks (p, d) = Returned st s' l \<Longrightarrow>
   \<exists>b log. parse_A toks (p, d) = Returned b s' log"
  by (auto simp: parse_A_def)

lemma parse_B_returns:
  "argp_parse parseoptions_B (flags_B q) toks (q, e) = Returned st s' l \<Longrightarrow>
   \<exists>b log. parse_B toks (q, e) = Returned b s' log"
  by (auto simp: parse_B_def)

lemma conversion_failure_A:
  assumes "convert_A p key = Some cv" and "\<not> fst (cv arg d)"
  shows "fst (parseoptions_A key arg (p, d)) = - 1 \<and>
         snd (snd (parseoptions_A key arg (p, d))) = [Argp_error (not_usable arg key)]"
  using assms by (cases "cv arg d") (simp add: parseoptions_A_def)

lemma conversion_B:
  assumes "convert_B q key = Some cv"
    and "key \<noteq> ARGP_KEY_INIT" "key \<noteq> ARGP_KEY_ARG" "key \<noteq> ARGP_KEY_END" "key \<noteq> ARGP_KEY_ERROR"
  shows "parseoptions_B key arg (q, e) =
         (fst (cv key arg e), (q, fst (snd (cv key arg e))), snd (snd (cv key arg e)))"
  using assms by (cases "cv key arg e") (simp add: parseoptions_B_def)

subsection \<open>The sequence loops, piece by piece\<close>

lemma pieces_Nil_iff: "pieces s = [] \<longleftrightarrow> s = []"
  by (subst pieces.simps) (simp add: getline_def)

lemma vector_loop_A_pieces:
  "vector_loop_A s x =
     (list_all stoi_ok (pieces s),
      x @ map (\<lambda>val. word_of_int (stoi_value val)) (takeWhile stoi_ok (pieces s)))"
proof (induction s x rule: vector_loop_A.induct)
  case (1 s x)
  show ?case
  proof (cases "getline s CHR '',''")
    case None
    then show ?thesis
      by (subst vector_loop_A.simps, subst pieces.simps, subst (2) pieces.simps) simp
  next
    case (Some a)
    obtain val rest where a: "a = (val, rest)" by (cases a)
    show ?thesis
    proof (cases "stoi val")
      case (Inl e)
      then show ?thesis
        using Some a
        by (subst vector_loop_A.simps, subst pieces.simps, subst (2) pieces.simps)
          (simp add: stoi_ok_def)
    next
      case (Inr v)
      have ih: "vector_loop_A rest (x @ [word_of_int v]) =
          (list_all stoi_ok (pieces rest),
           (x @ [word_of_int v]) @
             map (\<lambda>val. word_of_int (stoi_value val)) (takeWhile stoi_ok (pieces rest)))"
        using "1.IH" [OF Some a [symmetric] Inr] .
      show ?thesis
        using Some a Inr ih
        by (subst vector_loop_A.simps, subst pieces.simps, subst (2) pieces.simps)
          (simp add: stoi_ok_def stoi_value_def)
    qed
  qed
qed

lemma vector_string_loop_A_pieces: "vector_string_loop_A s x = x @ pieces s"
proof (induction s x rule: vector_string_loop_A.induct)
  case (1 s x)
  show ?case
  proof (cases "getline s CHR '',''")
    case None
    then show ?thesis
      by (subst vector_string_loop_A.simps, subst pieces.simps) simp
  next
    case (Some a)
    obtain val rest where a: "a = (val, rest)" by (cases a)
    have ih: "vector_string_loop_A rest (x @ [val]) = (x @ [val]) @ pieces rest"
      using "1.IH" [OF Some a [symmetric]] .
    show ?thesis
      using Some a ih
      by (subst vector_string_loop_A.simps, subst pieces.simps) simp
  qed
qed

text \<open>
  In \<^verbatim>\<open>part_000\<close> the element converter receives \<^verbatim>\<open>arg\<close>, not the piece. Whatever
  the element type, the loop converts the whole text once per piece: when that fails,
  it fails at the first piece; when it succeeds, every piece becomes the same element.
\<close>

lemma vector_loop_B_whole:
  "vector_loop_B elem fresh key arg s x =
     (if pieces s = [] then (0, x, [])
      else if fst (elem key arg fresh) \<noteq> 0 then (- 1, x, snd (snd (elem key arg fresh)))
      else (0, x @ replicate (length (pieces s)) (fst (snd (elem key arg fresh))),
            concat (replicate (length (pieces s)) (snd (snd (elem key arg fresh))))))"
proof (induction elem fresh key arg s x rule: vector_loop_B.induct)
  case (1 elem fresh key arg s x)
  show ?case
  proof (cases "getline s CHR '',''")
    case None
    then have "pieces s = []" by (subst pieces.simps) simp
    then show ?thesis using None by (subst vector_loop_B.simps) simp
  next
    case (Some a)
    obtain piece rest where a: "a = (piece, rest)" by (cases a)
    obtain st val calls where e: "elem key arg fresh = (st, val, calls)"
      by (cases "elem key arg fresh")
    have p: "pieces s = piece # pieces rest"
      using Some a by (subst pieces.simps) simp
    have u: "vector_loop_B elem fresh key arg s x =
        (if st \<noteq> 0 then (- 1, x, calls)
         else (case vector_loop_B elem fresh key arg rest (x @ [val]) of
                 (status', x', calls') \<Rightarrow> (status', x', calls @ calls')))"
      using Some a e by (subst vector_loop_B.simps) simp
    show ?thesis
    proof (cases "st = 0")
      case False
      then show ?thesis unfolding u p using e by simp
    next
      case True
      have ih: "vector_loop_B elem fresh key arg rest (x @ [val]) =
          (if pieces rest = [] then (0, x @ [val], [])
           else (0, (x @ [val]) @ replicate (length (pieces rest)) val,
                 concat (replicate (length (pieces rest)) calls)))"
        using "1.IH" [OF Some a [symmetric] e [symmetric] refl] True e by simp
      show ?thesis
        unfolding u p ih using True e by (simp add: replicate_append_same)
    qed
  qed
qed

lemma vector_B_integer:
  "make_check_function_vector_B make_check_function_integer_B fresh key arg x =
     (case stol arg of
        Inr v \<Rightarrow> (0, x @ replicate (length (pieces arg)) (word_of_int v), [])
      | Inl err \<Rightarrow>
          if arg = [] then (0, x, [])
          else (- 1, x,
                [Argp_error (''unable to interpret '' @ quoted arg @ '' as a whole number, ''
                   @ what ''stol'' err)]))"
  by (simp add: make_check_function_vector_B_def vector_loop_B_whole pieces_Nil_iff
      make_check_function_integer_B_def split: sum.splits)

subsection \<open>What \<^verbatim>\<open>strtol\<close> accepts as a whole\<close>










subsection \<open>Decimal numerals\<close>









subsection \<open>Examples\<close>



lemma count_A_x: "count_A (Some ''x'') initial = (False, initial)"
  by code_simp

lemma count_B_x:
  "count_B 110 (Some ''x'') initial =
     (- 1, initial,
      [Argp_error (''unable to interpret '' @ quoted ''x'' @ '' as a whole number, '' @ ''stol'')])"
  by code_simp

lemma stol_x: "stol ''x'' = Inl Invalid_argument"
  by code_simp

lemma caller_A_reserved: "reserved_unregistered_A (convert_A caller_A)"
  by (simp add: reserved_unregistered_A_def caller_A_convert key_defs)

lemma caller_B_reserved: "reserved_unregistered_B (convert_B caller_B)"
  by (simp add: reserved_unregistered_B_def caller_B_convert key_defs)

lemma caller_A_fields:
  "flags_A caller_A = 0" "expected_argument_count_A caller_A = 2" "arguments_A caller_A = []"
  by (simp_all add: caller_A_def add_option_A_def parser_A_def)

lemma caller_B_fields:
  "flags_B caller_B = 0" "expected_argument_count_B caller_B = 2" "arguments_B caller_B = []"
  by (simp_all add: caller_B_def add_option_B_def parser_B_def)

lemma pieces_123: "pieces ''1,2,3'' = [''1'', ''2'', ''3'']"
  by code_simp

lemma pieces_1x3: "pieces ''1,x,3'' = [''1'', ''x'', ''3'']"
  by code_simp

lemma stoi_digits:
  "stoi ''1'' = Inr 1" "stoi ''2'' = Inr 2" "stoi ''3'' = Inr 3" "stoi ''x'' = Inl Invalid_argument"
  by code_simp+


lemma schedule_default: "schedule 0 toks = filter (\<lambda>t. \<not> is_Argument t) toks @ filter is_Argument toks"
  by (simp add: schedule_def)

lemma schedule_no_exit:
  "schedule ARGP_NO_EXIT toks = filter (\<lambda>t. \<not> is_Argument t) toks @ filter is_Argument toks"
  by (simp add: schedule_def ARGP_NO_EXIT_def ARGP_IN_ORDER_def ARGP_NO_ARGS_def)

lemma flag_bits:
  "ARGP_NO_EXIT AND ARGP_NO_EXIT \<noteq> 0" "ARGP_NO_EXIT AND ARGP_NO_ERRS = 0"
  "ARGP_NO_ERRS AND ARGP_NO_ERRS \<noteq> 0" "(0 :: 32 word) AND ARGP_NO_ERRS = 0"
  "(0 :: 32 word) AND ARGP_NO_EXIT = 0"
  by (simp_all add: ARGP_NO_EXIT_def ARGP_NO_ERRS_def)

text \<open>
  What \<^verbatim>\<open>cxx_argp_parser.h\<close> does with a sequence of whole numbers: the pieces are
  converted by \<^verbatim>\<open>std::stoi\<close> from left to right, each converted piece is appended, and
  the first piece that does not convert ends the loop with failure; the pieces of a
  sequence of strings are appended as they are. \<^verbatim>\<open>1,2,3\<close> appends 1, 2, 3 and
  \<^verbatim>\<open>1,x,3\<close> fails after appending 1; the caller's \<^verbatim>\<open>-l 1,2,3 a b\<close> succeeds with
  the numbers 1, 2, 3 and its \<^verbatim>\<open>-l 1,x,3 a b\<close> does not succeed, whatever the flags
  other than \<^verbatim>\<open>ARGP_NO_ERRS\<close>.
\<close>

lemma numbers_A_1x3: "fst (numbers_A (Some ''1,x,3'') initial) = False"
  by code_simp

lemma sequence_converters_A:
  "make_check_function_vector_A arg x =
     (list_all stoi_ok (pieces arg),
      x @ map (\<lambda>val. word_of_int (stoi_value val)) (takeWhile stoi_ok (pieces arg)))"
  "make_check_function_vector_string_A arg y = (True, y @ pieces arg)"
  "make_check_function_vector_A ''1,2,3'' x = (True, x @ [1, 2, 3])"
  "make_check_function_vector_A ''1,x,3'' x = (False, x @ [1])"
  "(case parse_A [Option 108 (Some ''1,2,3''), Argument ''a'', Argument ''b''] (caller_A, initial) of
      Exited code \<Rightarrow> None
    | Returned b s log \<Rightarrow> Some (b, var_numbers (snd s))) = Some (True, [1, 2, 3])"
  "\<not> (\<exists>s' log. parse_A [Option 108 (Some ''1,x,3''), Argument ''a'', Argument ''b'']
        (caller_A, initial) = Returned True s' log)"
proof -
  have g: "\<And>a. make_check_function_vector_A a x =
     (list_all stoi_ok (pieces a),
      x @ map (\<lambda>val. word_of_int (stoi_value val)) (takeWhile stoi_ok (pieces a)))"
    by (simp add: make_check_function_vector_A_def vector_loop_A_pieces)
  show "make_check_function_vector_A arg x =
     (list_all stoi_ok (pieces arg),
      x @ map (\<lambda>val. word_of_int (stoi_value val)) (takeWhile stoi_ok (pieces arg)))"
    by (rule g)
  show "make_check_function_vector_string_A arg y = (True, y @ pieces arg)"
    by (simp add: make_check_function_vector_string_A_def vector_string_loop_A_pieces)
  show "make_check_function_vector_A ''1,2,3'' x = (True, x @ [1, 2, 3])"
    by (simp add: g pieces_123 stoi_ok_def stoi_value_def stoi_digits)
  show "make_check_function_vector_A ''1,x,3'' x = (False, x @ [1])"
    by (simp add: g pieces_1x3 stoi_ok_def stoi_value_def stoi_digits)
  show "(case parse_A [Option 108 (Some ''1,2,3''), Argument ''a'', Argument ''b''] (caller_A, initial) of
      Exited code \<Rightarrow> None
    | Returned b s log \<Rightarrow> Some (b, var_numbers (snd s))) = Some (True, [1, 2, 3])"
    by code_simp
  have kf: "option_keys_free [Option 108 (Some ''1,x,3''), Argument ''a'', Argument ''b'']"
    by (simp add: lifecycle_key_def key_defs)
  have no: "\<not> options_ok_A (convert_A caller_A)
      (schedule 0 [Option 108 (Some ''1,x,3''), Argument ''a'', Argument ''b'']) initial"
    using numbers_A_1x3
    by (simp add: schedule_default is_Argument_def caller_A_convert case_prod_beta)
  show "\<not> (\<exists>s' log. parse_A [Option 108 (Some ''1,x,3''), Argument ''a'', Argument ''b'']
        (caller_A, initial) = Returned True s' log)"
    using parse_A_success_iff [OF caller_A_reserved kf, of initial] no
    by (simp add: caller_A_fields flag_bits)
qed

section \<open>The claims\<close>







text \<open>
  C3. The sequence converter of \<^verbatim>\<open>part_000\<close> does not apply the element's conversion
  rule to each piece: it hands the element converter the whole option text once per
  piece. For an integer sequence the result is the leading number of the whole text as
  many times as the text has pieces, or an \<^verbatim>\<open>argp_error\<close> at the first piece when the
  whole text does not start with a number. \<^verbatim>\<open>1,2,3\<close> yields 1, 1, 1 instead of
  1, 2, 3, and \<^verbatim>\<open>1,x,3\<close> is accepted, also as 1, 1, 1, so that the caller's
  \<^verbatim>\<open>-l 1,x,3 a b\<close> succeeds instead of failing.
\<close>

theorem sequence_converter_of_part_000_converts_whole_text:
  "make_check_function_vector_B make_check_function_integer_B fresh key arg x =
     (case stol arg of
        Inr v \<Rightarrow> (0, x @ replicate (length (pieces arg)) (word_of_int v), [])
      | Inl err \<Rightarrow>
          if arg = [] then (0, x, [])
          else (- 1, x,
                [Argp_error (''unable to interpret '' @ quoted arg @ '' as a whole number, ''
                   @ what ''stol'' err)])) \<and>
   make_check_function_vector_B make_check_function_integer_B 0 108 ''1,2,3'' ([] :: 32 word list) =
     (0, [1, 1, 1], []) \<and>
   make_check_function_vector_B make_check_function_integer_B 0 108 ''1,x,3'' ([] :: 32 word list) =
     (0, [1, 1, 1], []) \<and>
   (case parse_B [Option 108 (Some ''1,2,3''), Argument ''a'', Argument ''b''] (caller_B, initial) of
      Exited code \<Rightarrow> None
    | Returned b s log \<Rightarrow> Some (b, var_numbers (snd s))) = Some (True, [1, 1, 1]) \<and>
   (case parse_B [Option 108 (Some ''1,x,3''), Argument ''a'', Argument ''b''] (caller_B, initial) of
      Exited code \<Rightarrow> None
    | Returned b s log \<Rightarrow> Some (b, var_numbers (snd s))) = Some (True, [1, 1, 1])"
proof -
  have 1: "make_check_function_vector_B make_check_function_integer_B 0 108 ''1,2,3''
      ([] :: 32 word list) = (0, [1, 1, 1], [])"
    by code_simp
  have 2: "make_check_function_vector_B make_check_function_integer_B 0 108 ''1,x,3''
      ([] :: 32 word list) = (0, [1, 1, 1], [])"
    by code_simp
  have 3: "(case parse_B [Option 108 (Some ''1,2,3''), Argument ''a'', Argument ''b''] (caller_B, initial) of
      Exited code \<Rightarrow> None
    | Returned b s log \<Rightarrow> Some (b, var_numbers (snd s))) = Some (True, [1, 1, 1])"
    by code_simp
  have 4: "(case parse_B [Option 108 (Some ''1,x,3''), Argument ''a'', Argument ''b''] (caller_B, initial) of
      Exited code \<Rightarrow> None
    | Returned b s log \<Rightarrow> Some (b, var_numbers (snd s))) = Some (True, [1, 1, 1])"
    by code_simp
  show ?thesis using vector_B_integer [of fresh key arg x] 1 2 3 4 by (intro conjI)
qed

text \<open>
  C4 (as amended). Of two \<^verbatim>\<open>add_option\<close> calls with the same key the earlier one
  stays in the registry: \<^verbatim>\<open>convert_.insert\<close> leaves an existing entry alone, so the
  second call changes nothing at that key, after both calls on a new parser the entry
  is the first converter, and an event with that key runs the first converter (its
  flag decides the status, its writes reach the destinations); the option table holds
  both descriptors all the same. Both editions, and the
  \<^verbatim>\<open>bool(const char *)\<close> overload of \<^verbatim>\<open>part_000\<close>; there the key must not be a
  reserved one, which the callback handles before it looks at the registry.
\<close>

theorem first_registration_wins:
  "convert_A (add_option_A (o_second\<lparr>opt_key := k\<rparr>) c_second (add_option_A (o_first\<lparr>opt_key := k\<rparr>) c_first p)) k =
     convert_A (add_option_A (o_first\<lparr>opt_key := k\<rparr>) c_first p) k \<and>
   convert_A (add_option_A (o_second\<lparr>opt_key := k\<rparr>) c_second (add_option_A (o_first\<lparr>opt_key := k\<rparr>) c_first (parser_A n))) k =
     Some c_first \<and>
   fst (parseoptions_A k arg
     (add_option_A (o_second\<lparr>opt_key := k\<rparr>) c_second (add_option_A (o_first\<lparr>opt_key := k\<rparr>) c_first (parser_A n)), d)) =
     (if fst (c_first arg d) then 0 else - 1) \<and>
   snd (fst (snd (parseoptions_A k arg
     (add_option_A (o_second\<lparr>opt_key := k\<rparr>) c_second (add_option_A (o_first\<lparr>opt_key := k\<rparr>) c_first (parser_A n)), d)))) =
     snd (c_first arg d) \<and>
   convert_B (add_option_B (o_second\<lparr>opt_key := k\<rparr>) b_second (add_option_B (o_first\<lparr>opt_key := k\<rparr>) b_first q)) k =
     convert_B (add_option_B (o_first\<lparr>opt_key := k\<rparr>) b_first q) k \<and>
   convert_B (add_option_B (o_second\<lparr>opt_key := k\<rparr>) b_second (add_option_B (o_first\<lparr>opt_key := k\<rparr>) b_first (parser_B n))) k =
     Some b_first \<and>
   convert_B (add_option_bool_B (o_second\<lparr>opt_key := k\<rparr>) c_bool (add_option_B (o_first\<lparr>opt_key := k\<rparr>) b_first (parser_B n))) k =
     Some b_first \<and>
   options_A (add_option_A o_second c_second (add_option_A o_first c_first (parser_A n))) =
     [o_first, o_second, zero_option] \<and>
   options_B (add_option_B o_second b_second (add_option_B o_first b_first (parser_B n))) =
     [o_first, o_second, zero_option] \<and>
   (k \<noteq> ARGP_KEY_INIT \<and> k \<noteq> ARGP_KEY_ARG \<and> k \<noteq> ARGP_KEY_END \<and> k \<noteq> ARGP_KEY_ERROR \<longrightarrow>
    (case parseoptions_B k arg
       (add_option_B (o_second\<lparr>opt_key := k\<rparr>) b_second (add_option_B (o_first\<lparr>opt_key := k\<rparr>) b_first (parser_B n)), e)
     of (st, s', calls) \<Rightarrow> (st, snd s', calls)) = b_first k arg e)"
proof -
  have ca: "\<And>opt c (p::'a parser_A). convert_A (add_option_A opt c p) = map_insert (convert_A p) (opt_key opt) c"
    by (simp add: add_option_A_def)
  have cb: "\<And>opt c (p::'b parser_B). convert_B (add_option_B opt c p) = map_insert (convert_B p) (opt_key opt) c"
    by (simp add: add_option_B_def)
  have 1: "convert_A (add_option_A (o_second\<lparr>opt_key := k\<rparr>) c_second (add_option_A (o_first\<lparr>opt_key := k\<rparr>) c_first p)) k =
     convert_A (add_option_A (o_first\<lparr>opt_key := k\<rparr>) c_first p) k"
    by (simp add: ca map_insert_twice)
  have 2: "convert_A (add_option_A (o_second\<lparr>opt_key := k\<rparr>) c_second
      (add_option_A (o_first\<lparr>opt_key := k\<rparr>) c_first (parser_A n :: 'a parser_A))) k = Some c_first"
    by (simp add: ca map_insert_empty parser_A_def)
  have 3: "fst (parseoptions_A k arg
     (add_option_A (o_second\<lparr>opt_key := k\<rparr>) c_second (add_option_A (o_first\<lparr>opt_key := k\<rparr>) c_first (parser_A n)), d)) =
     (if fst (c_first arg d) then 0 else - 1)"
    using 2 by (simp add: parseoptions_A_def split: prod.splits)
  have 4: "snd (fst (snd (parseoptions_A k arg
     (add_option_A (o_second\<lparr>opt_key := k\<rparr>) c_second (add_option_A (o_first\<lparr>opt_key := k\<rparr>) c_first (parser_A n)), d)))) =
     snd (c_first arg d)"
    using 2 by (simp add: parseoptions_A_def split: prod.splits)
  have 5: "convert_B (add_option_B (o_second\<lparr>opt_key := k\<rparr>) b_second (add_option_B (o_first\<lparr>opt_key := k\<rparr>) b_first q)) k =
     convert_B (add_option_B (o_first\<lparr>opt_key := k\<rparr>) b_first q) k"
    by (simp add: cb map_insert_twice)
  have 6: "convert_B (add_option_B (o_second\<lparr>opt_key := k\<rparr>) b_second
      (add_option_B (o_first\<lparr>opt_key := k\<rparr>) b_first (parser_B n :: 'b parser_B))) k = Some b_first"
    by (simp add: cb map_insert_empty parser_B_def)
  have 7: "convert_B (add_option_bool_B (o_second\<lparr>opt_key := k\<rparr>) c_bool
      (add_option_B (o_first\<lparr>opt_key := k\<rparr>) b_first (parser_B n :: 'b parser_B))) k = Some b_first"
    by (simp add: cb add_option_bool_B_def map_insert_def parser_B_def)
  have 8: "k \<noteq> ARGP_KEY_INIT \<and> k \<noteq> ARGP_KEY_ARG \<and> k \<noteq> ARGP_KEY_END \<and> k \<noteq> ARGP_KEY_ERROR \<longrightarrow>
    (case parseoptions_B k arg
       (add_option_B (o_second\<lparr>opt_key := k\<rparr>) b_second (add_option_B (o_first\<lparr>opt_key := k\<rparr>) b_first (parser_B n)), e)
     of (st, s', calls) \<Rightarrow> (st, snd s', calls)) = b_first k arg e"
    using 6 by (simp add: parseoptions_B_def split: prod.splits)
  have 9: "options_A (add_option_A o_second c_second (add_option_A o_first c_first (parser_A n))) =
     [o_first, o_second, zero_option]"
    by (simp add: add_option_A_def parser_A_def insert_before_last_def)
  have 10: "options_B (add_option_B o_second b_second (add_option_B o_first b_first (parser_B n))) =
     [o_first, o_second, zero_option]"
    by (simp add: add_option_B_def parser_B_def insert_before_last_def)
  show ?thesis using 1 2 3 4 5 6 7 8 9 10 by blast
qed

text \<open>
  Registering \<^verbatim>\<open>'n'\<close> first for the counter and then for a converter that rejects
  everything: \<^verbatim>\<open>-n 5\<close> stores 5 and returns 0.
\<close>

theorem first_registration_wins_witness:
  "(110::int) \<noteq> ARGP_KEY_INIT \<and> (110::int) \<noteq> ARGP_KEY_ARG \<and> (110::int) \<noteq> ARGP_KEY_END \<and>
   (110::int) \<noteq> ARGP_KEY_ERROR \<and>
   (case parseoptions_B 110 (Some ''5'')
       (add_option_B (option_count\<lparr>opt_key := 110\<rparr>) reject_B
          (add_option_B (option_count\<lparr>opt_key := 110\<rparr>) count_B (parser_B 0)), initial)
     of (st, s', calls) \<Rightarrow> (st, snd s', calls)) = (0, initial\<lparr>var_count := 5\<rparr>, [])"
proof -
  have c: "count_B 110 (Some ''5'') initial = (0, initial\<lparr>var_count := 5\<rparr>, [])"
    by code_simp
  show ?thesis
    using first_registration_wins [where k = 110 and o_first = option_count and o_second = option_count
        and b_first = count_B and b_second = reject_B and n = 0 and arg = "Some ''5''" and e = initial
        and c_first = accept_A and c_second = reject_A and c_bool = reject_A and d = initial
        and p = "parser_A 0" and q = "parser_B 0"] c
    by (simp add: ARGP_KEY_INIT_def ARGP_KEY_ARG_def ARGP_KEY_END_def ARGP_KEY_ERROR_def)
qed

text \<open>
  C4 as stated fails: with an accepting converter registered first and a rejecting one
  second under the key \<^verbatim>\<open>'n'\<close>, the registry holds the accepting one and the event
  returns 0, where the second converter would have rejected the text.
\<close>

theorem last_registration_ignored:
  "convert_A (add_option_A option_count reject_A (add_option_A option_count accept_A (parser_A 0))) 110
     = Some accept_A \<and>
   fst (parseoptions_A 110 (Some ''5'')
     (add_option_A option_count reject_A (add_option_A option_count accept_A (parser_A 0)), initial)) = 0 \<and>
   fst (reject_A (Some ''5'') initial) = False \<and>
   convert_B (add_option_B option_count reject_B (add_option_B option_count accept_B (parser_B 0))) 110
     = Some accept_B \<and>
   fst (parseoptions_B 110 (Some ''5'')
     (add_option_B option_count reject_B (add_option_B option_count accept_B (parser_B 0)), initial)) = 0 \<and>
   fst (reject_B 110 (Some ''5'') initial) = - 1"
  by (simp add: add_option_A_def add_option_B_def map_insert_def parser_A_def parser_B_def
      parseoptions_A_def parseoptions_B_def option_count_def accept_A_def reject_A_def
      accept_B_def reject_B_def ARGP_KEY_INIT_def ARGP_KEY_ARG_def ARGP_KEY_END_def
      ARGP_KEY_ERROR_def)

text \<open>
  C5 (as amended). A converter that rejects its text makes the callback return \<open>- 1\<close>
  with one \<^verbatim>\<open>argp_error\<close> call carrying a diagnostic: in \<^verbatim>\<open>cxx_argp_parser.h\<close> the
  callback makes it, naming text and key; in \<^verbatim>\<open>part_000\<close> the converter makes it (the
  integer converter, and the wrapper around a custom \<^verbatim>\<open>bool(const char *)\<close>) and the
  callback passes status and calls on. An arity mismatch makes the end event return 0
  with one call carrying ``too many'' or ``too few arguments given'': \<^verbatim>\<open>argp_failure\<close>
  with exit status 1 in \<^verbatim>\<open>cxx_argp_parser.h\<close>, \<^verbatim>\<open>argp_error\<close> in \<^verbatim>\<open>part_000\<close>.
  With neither \<^verbatim>\<open>ARGP_NO_ERRS\<close> nor \<^verbatim>\<open>ARGP_NO_EXIT\<close> set, and no key of the engine's
  own events registered or carried by an option, the process of \<^verbatim>\<open>cxx_argp_parser.h\<close>
  ends with the engine's \<^verbatim>\<open>argp_err_exit_status\<close> when the engine or a converter
  rejects something, and with status 1 when nothing is rejected and the number of
  positional arguments is not the expected one; the process of \<^verbatim>\<open>part_000\<close> ends with
  \<^verbatim>\<open>argp_err_exit_status\<close> in that second case. With \<^verbatim>\<open>ARGP_NO_EXIT\<close> set the
  engine never ends the process and \<^verbatim>\<open>parse\<close> returns; and whenever \<^verbatim>\<open>parse\<close>
  returns after a rejection or an arity mismatch, \<^verbatim>\<open>ARGP_NO_ERRS\<close> not set, it does
  not return \<^verbatim>\<open>true\<close>.
\<close>

theorem failure_reporting:
  "(convert_A p key = Some cv \<and> \<not> fst (cv arg d) \<longrightarrow>
      fst (parseoptions_A key arg (p, d)) = - 1 \<and>
      snd (snd (parseoptions_A key arg (p, d))) = [Argp_error (not_usable arg key)]) \<and>
   (convert_A p ARGP_KEY_END = None \<and> expected_argument_count_A p \<noteq> - 1 \<and>
    length (arguments_A p) \<noteq> unat (expected_argument_count_A p) \<longrightarrow>
      fst (parseoptions_A ARGP_KEY_END arg (p, d)) = 0 \<and>
      snd (snd (parseoptions_A ARGP_KEY_END arg (p, d))) =
        [Argp_failure 1 0
           (if unat (expected_argument_count_A p) < length (arguments_A p)
            then ''too many arguments given'' else ''too few arguments given'')]) \<and>
   (stol str = Inl err \<longrightarrow>
      make_check_function_integer_B key str x =
        (- 1, x,
         [Argp_error (''unable to interpret '' @ quoted str @ '' as a whole number, ''
            @ what ''stol'' err)])) \<and>
   (\<not> fst (custom arg e) \<and> key \<noteq> ARGP_KEY_INIT \<and> key \<noteq> ARGP_KEY_ARG \<and> key \<noteq> ARGP_KEY_END \<and>
    key \<noteq> ARGP_KEY_ERROR \<longrightarrow>
      fst (parseoptions_B key arg (add_option_bool_B (opt\<lparr>opt_key := key\<rparr>) custom (parser_B n), e)) = - 1 \<and>
      snd (snd (parseoptions_B key arg (add_option_bool_B (opt\<lparr>opt_key := key\<rparr>) custom (parser_B n), e))) =
        [Argp_error (not_usable arg key)]) \<and>
   (convert_B q key = Some cw \<and> key \<noteq> ARGP_KEY_INIT \<and> key \<noteq> ARGP_KEY_ARG \<and> key \<noteq> ARGP_KEY_END \<and>
    key \<noteq> ARGP_KEY_ERROR \<longrightarrow>
      parseoptions_B key arg (q, e) =
        (fst (cw key arg e), (q, fst (snd (cw key arg e))), snd (snd (cw key arg e)))) \<and>
   (expected_argument_count_B q \<noteq> - 1 \<and>
    length (arguments_B q) \<noteq> unat (expected_argument_count_B q) \<longrightarrow>
      fst (parseoptions_B ARGP_KEY_END arg (q, e)) = 0 \<and>
      snd (snd (parseoptions_B ARGP_KEY_END arg (q, e))) =
        [Argp_error
           (if unat (expected_argument_count_B q) < length (arguments_B q)
            then ''too many arguments given'' else ''too few arguments given'')]) \<and>
   (reserved_unregistered_A (convert_A p) \<and> option_keys_free toks \<and>
    flags_A p AND ARGP_NO_ERRS = 0 \<and> flags_A p AND ARGP_NO_EXIT = 0 \<and>
    \<not> (recognized (schedule (flags_A p) toks) \<and>
       options_ok_A (convert_A p) (schedule (flags_A p) toks) d) \<longrightarrow>
      parse_A toks (p, d) = Exited argp_err_exit_status) \<and>
   (reserved_unregistered_A (convert_A p) \<and> option_keys_free toks \<and>
    flags_A p AND ARGP_NO_ERRS = 0 \<and> flags_A p AND ARGP_NO_EXIT = 0 \<and>
    recognized (schedule (flags_A p) toks) \<and>
    options_ok_A (convert_A p) (schedule (flags_A p) toks) d \<and>
    expected_argument_count_A p \<noteq> - 1 \<and>
    length (positional (schedule (flags_A p) toks)) \<noteq> unat (expected_argument_count_A p) \<longrightarrow>
      parse_A toks (p, d) = Exited 1) \<and>
   (reserved_unregistered_B (convert_B q) \<and> option_keys_free toks \<and>
    flags_B q AND ARGP_NO_ERRS = 0 \<and> flags_B q AND ARGP_NO_EXIT = 0 \<and>
    recognized (schedule (flags_B q) toks) \<and>
    options_ok_B (flags_B q) (convert_B q) (schedule (flags_B q) toks) e \<and>
    expected_argument_count_B q \<noteq> - 1 \<and>
    length (positional (schedule (flags_B q) toks)) \<noteq> unat (expected_argument_count_B q) \<longrightarrow>
      parse_B toks (q, e) = Exited argp_err_exit_status) \<and>
   (flags_A p AND ARGP_NO_EXIT \<noteq> 0 \<longrightarrow> (\<exists>b s' log. parse_A toks (p, d) = Returned b s' log)) \<and>
   (flags_B q AND ARGP_NO_EXIT \<noteq> 0 \<longrightarrow> (\<exists>b s' log. parse_B toks (q, e) = Returned b s' log)) \<and>
   (reserved_unregistered_A (convert_A p) \<and> option_keys_free toks \<and> flags_A p AND ARGP_NO_ERRS = 0 \<and>
    (\<not> recognized (schedule (flags_A p) toks) \<or>
     \<not> options_ok_A (convert_A p) (schedule (flags_A p) toks) d \<or>
     expected_argument_count_A p \<noteq> - 1 \<and>
     length (positional (schedule (flags_A p) toks)) \<noteq> unat (expected_argument_count_A p)) \<longrightarrow>
      \<not> (\<exists>s' log. parse_A toks (p, d) = Returned True s' log)) \<and>
   (reserved_unregistered_B (convert_B q) \<and> option_keys_free toks \<and> flags_B q AND ARGP_NO_ERRS = 0 \<and>
    (\<not> recognized (schedule (flags_B q) toks) \<or>
     \<not> options_ok_B (flags_B q) (convert_B q) (schedule (flags_B q) toks) e \<or>
     expected_argument_count_B q \<noteq> - 1 \<and>
     length (positional (schedule (flags_B q) toks)) \<noteq> unat (expected_argument_count_B q)) \<longrightarrow>
      \<not> (\<exists>s' log. parse_B toks (q, e) = Returned True s' log))"
proof -
  have 1: "convert_A p key = Some cv \<and> \<not> fst (cv arg d) \<longrightarrow>
      fst (parseoptions_A key arg (p, d)) = - 1 \<and>
      snd (snd (parseoptions_A key arg (p, d))) = [Argp_error (not_usable arg key)]"
    using conversion_failure_A [of p key cv arg d] by blast
  have 2: "convert_A p ARGP_KEY_END = None \<and> expected_argument_count_A p \<noteq> - 1 \<and>
    length (arguments_A p) \<noteq> unat (expected_argument_count_A p) \<longrightarrow>
      fst (parseoptions_A ARGP_KEY_END arg (p, d)) = 0 \<and>
      snd (snd (parseoptions_A ARGP_KEY_END arg (p, d))) =
        [Argp_failure 1 0
           (if unat (expected_argument_count_A p) < length (arguments_A p)
            then ''too many arguments given'' else ''too few arguments given'')]"
    by (auto simp: end_A)
  have 3: "stol str = Inl err \<longrightarrow>
      make_check_function_integer_B key str x =
        (- 1, x,
         [Argp_error (''unable to interpret '' @ quoted str @ '' as a whole number, ''
            @ what ''stol'' err)])"
    by (simp add: make_check_function_integer_B_def)
  have 4: "\<not> fst (custom arg e) \<and> key \<noteq> ARGP_KEY_INIT \<and> key \<noteq> ARGP_KEY_ARG \<and> key \<noteq> ARGP_KEY_END \<and>
    key \<noteq> ARGP_KEY_ERROR \<longrightarrow>
      fst (parseoptions_B key arg (add_option_bool_B (opt\<lparr>opt_key := key\<rparr>) custom (parser_B n), e)) = - 1 \<and>
      snd (snd (parseoptions_B key arg (add_option_bool_B (opt\<lparr>opt_key := key\<rparr>) custom (parser_B n), e))) =
        [Argp_error (not_usable arg key)]"
    by (cases "custom arg e")
      (simp add: parseoptions_B_def add_option_bool_B_def parser_B_def map_insert_def)
  have 5: "convert_B q key = Some cw \<and> key \<noteq> ARGP_KEY_INIT \<and> key \<noteq> ARGP_KEY_ARG \<and> key \<noteq> ARGP_KEY_END \<and>
    key \<noteq> ARGP_KEY_ERROR \<longrightarrow>
      parseoptions_B key arg (q, e) =
        (fst (cw key arg e), (q, fst (snd (cw key arg e))), snd (snd (cw key arg e)))"
    using conversion_B [of q key cw arg e] by blast
  have 6: "expected_argument_count_B q \<noteq> - 1 \<and>
    length (arguments_B q) \<noteq> unat (expected_argument_count_B q) \<longrightarrow>
      fst (parseoptions_B ARGP_KEY_END arg (q, e)) = 0 \<and>
      snd (snd (parseoptions_B ARGP_KEY_END arg (q, e))) =
        [Argp_error
           (if unat (expected_argument_count_B q) < length (arguments_B q)
            then ''too many arguments given'' else ''too few arguments given'')]"
    by (auto simp: end_B)
  have 7: "reserved_unregistered_A (convert_A p) \<and> option_keys_free toks \<and>
    flags_A p AND ARGP_NO_ERRS = 0 \<and> flags_A p AND ARGP_NO_EXIT = 0 \<and>
    \<not> (recognized (schedule (flags_A p) toks) \<and>
       options_ok_A (convert_A p) (schedule (flags_A p) toks) d) \<longrightarrow>
      parse_A toks (p, d) = Exited argp_err_exit_status"
    using parse_A_exit_usage [of p toks d] by blast
  have 8: "reserved_unregistered_A (convert_A p) \<and> option_keys_free toks \<and>
    flags_A p AND ARGP_NO_ERRS = 0 \<and> flags_A p AND ARGP_NO_EXIT = 0 \<and>
    recognized (schedule (flags_A p) toks) \<and>
    options_ok_A (convert_A p) (schedule (flags_A p) toks) d \<and>
    expected_argument_count_A p \<noteq> - 1 \<and>
    length (positional (schedule (flags_A p) toks)) \<noteq> unat (expected_argument_count_A p) \<longrightarrow>
      parse_A toks (p, d) = Exited 1"
    using parse_A_exit_arity [of p toks d] by blast
  have 9: "reserved_unregistered_B (convert_B q) \<and> option_keys_free toks \<and>
    flags_B q AND ARGP_NO_ERRS = 0 \<and> flags_B q AND ARGP_NO_EXIT = 0 \<and>
    recognized (schedule (flags_B q) toks) \<and>
    options_ok_B (flags_B q) (convert_B q) (schedule (flags_B q) toks) e \<and>
    expected_argument_count_B q \<noteq> - 1 \<and>
    length (positional (schedule (flags_B q) toks)) \<noteq> unat (expected_argument_count_B q) \<longrightarrow>
      parse_B toks (q, e) = Exited argp_err_exit_status"
    using parse_B_exit_arity [of q toks e] by blast
  have 10: "flags_A p AND ARGP_NO_EXIT \<noteq> 0 \<longrightarrow> (\<exists>b s' log. parse_A toks (p, d) = Returned b s' log)"
    using argp_parse_quiet [of "flags_A p" parseoptions_A toks "(p, d)"] parse_A_returns [of p toks d]
    by blast
  have 11: "flags_B q AND ARGP_NO_EXIT \<noteq> 0 \<longrightarrow> (\<exists>b s' log. parse_B toks (q, e) = Returned b s' log)"
    using argp_parse_quiet [of "flags_B q" parseoptions_B toks "(q, e)"] parse_B_returns [of q toks e]
    by blast
  have 12: "reserved_unregistered_A (convert_A p) \<and> option_keys_free toks \<and> flags_A p AND ARGP_NO_ERRS = 0 \<and>
    (\<not> recognized (schedule (flags_A p) toks) \<or>
     \<not> options_ok_A (convert_A p) (schedule (flags_A p) toks) d \<or>
     expected_argument_count_A p \<noteq> - 1 \<and>
     length (positional (schedule (flags_A p) toks)) \<noteq> unat (expected_argument_count_A p)) \<longrightarrow>
      \<not> (\<exists>s' log. parse_A toks (p, d) = Returned True s' log)"
    using parse_A_success_iff [of p toks d] by blast
  have 13: "reserved_unregistered_B (convert_B q) \<and> option_keys_free toks \<and> flags_B q AND ARGP_NO_ERRS = 0 \<and>
    (\<not> recognized (schedule (flags_B q) toks) \<or>
     \<not> options_ok_B (flags_B q) (convert_B q) (schedule (flags_B q) toks) e \<or>
     expected_argument_count_B q \<noteq> - 1 \<and>
     length (positional (schedule (flags_B q) toks)) \<noteq> unat (expected_argument_count_B q)) \<longrightarrow>
      \<not> (\<exists>s' log. parse_B toks (q, e) = Returned True s' log)"
    using parse_B_success_iff [of q toks e] by blast
  show ?thesis
    using 1 2 3 4 5 6 7 8 9 10 11 12 13 by (intro conjI)
qed

text \<open>
  The caller and \<^verbatim>\<open>-n x\<close>: the text is rejected and the calls are as described. With
  \<^verbatim>\<open>ARGP_NO_EXIT\<close> added \<^verbatim>\<open>parse\<close> returns and does not return \<^verbatim>\<open>true\<close>. With
  the caller's own flags \<^verbatim>\<open>-n x a b\<close> ends the process of \<^verbatim>\<open>cxx_argp_parser.h\<close>
  with \<^verbatim>\<open>argp_err_exit_status\<close>, and \<^verbatim>\<open>a\<close> alone ends it with status 1, that of
  \<^verbatim>\<open>part_000\<close> with \<^verbatim>\<open>argp_err_exit_status\<close>.
\<close>

theorem failure_reporting_witness:
  "convert_A (add_flags_A ARGP_NO_EXIT caller_A) 110 = Some count_A \<and>
   \<not> fst (count_A (Some ''x'') initial) \<and>
   fst (parseoptions_A 110 (Some ''x'') (add_flags_A ARGP_NO_EXIT caller_A, initial)) = - 1 \<and>
   snd (snd (parseoptions_A 110 (Some ''x'') (add_flags_A ARGP_NO_EXIT caller_A, initial))) =
     [Argp_error (not_usable (Some ''x'') 110)] \<and>
   convert_A (add_flags_A ARGP_NO_EXIT caller_A) ARGP_KEY_END = None \<and>
   expected_argument_count_A (add_flags_A ARGP_NO_EXIT caller_A) \<noteq> - 1 \<and>
   length (arguments_A (add_flags_A ARGP_NO_EXIT caller_A)) \<noteq>
     unat (expected_argument_count_A (add_flags_A ARGP_NO_EXIT caller_A)) \<and>
   snd (snd (parseoptions_A ARGP_KEY_END None (add_flags_A ARGP_NO_EXIT caller_A, initial))) =
     [Argp_failure 1 0 ''too few arguments given''] \<and>
   stol ''x'' = Inl Invalid_argument \<and>
   \<not> fst (reject_A (Some ''x'') initial) \<and>
   (110::int) \<noteq> ARGP_KEY_INIT \<and> (110::int) \<noteq> ARGP_KEY_ARG \<and> (110::int) \<noteq> ARGP_KEY_END \<and>
   (110::int) \<noteq> ARGP_KEY_ERROR \<and>
   fst (parseoptions_B 110 (Some ''x'')
     (add_option_bool_B (option_count\<lparr>opt_key := 110\<rparr>) reject_A (parser_B 2), initial)) = - 1 \<and>
   convert_B (add_flags_B ARGP_NO_EXIT caller_B) 110 = Some count_B \<and>
   fst (parseoptions_B 110 (Some ''x'') (add_flags_B ARGP_NO_EXIT caller_B, initial)) = - 1 \<and>
   length (arguments_B (add_flags_B ARGP_NO_EXIT caller_B)) \<noteq>
     unat (expected_argument_count_B (add_flags_B ARGP_NO_EXIT caller_B)) \<and>
   snd (snd (parseoptions_B ARGP_KEY_END None (add_flags_B ARGP_NO_EXIT caller_B, initial))) =
     [Argp_error ''too few arguments given''] \<and>
   flags_A (add_flags_A ARGP_NO_EXIT caller_A) AND ARGP_NO_EXIT \<noteq> 0 \<and>
   flags_A (add_flags_A ARGP_NO_EXIT caller_A) AND ARGP_NO_ERRS = 0 \<and>
   flags_B (add_flags_B ARGP_NO_EXIT caller_B) AND ARGP_NO_EXIT \<noteq> 0 \<and>
   flags_B (add_flags_B ARGP_NO_EXIT caller_B) AND ARGP_NO_ERRS = 0 \<and>
   reserved_unregistered_A (convert_A (add_flags_A ARGP_NO_EXIT caller_A)) \<and>
   reserved_unregistered_B (convert_B (add_flags_B ARGP_NO_EXIT caller_B)) \<and>
   option_keys_free [Option 110 (Some ''x'')] \<and>
   \<not> options_ok_A (convert_A (add_flags_A ARGP_NO_EXIT caller_A))
       (schedule (flags_A (add_flags_A ARGP_NO_EXIT caller_A)) [Option 110 (Some ''x'')]) initial \<and>
   \<not> options_ok_B (flags_B (add_flags_B ARGP_NO_EXIT caller_B))
       (convert_B (add_flags_B ARGP_NO_EXIT caller_B))
       (schedule (flags_B (add_flags_B ARGP_NO_EXIT caller_B)) [Option 110 (Some ''x'')]) initial \<and>
   (\<exists>b s' log. parse_A [Option 110 (Some ''x'')] (add_flags_A ARGP_NO_EXIT caller_A, initial) =
      Returned b s' log) \<and>
   \<not> (\<exists>s' log. parse_A [Option 110 (Some ''x'')] (add_flags_A ARGP_NO_EXIT caller_A, initial) =
      Returned True s' log) \<and>
   (\<exists>b s' log. parse_B [Option 110 (Some ''x'')] (add_flags_B ARGP_NO_EXIT caller_B, initial) =
      Returned b s' log) \<and>
   \<not> (\<exists>s' log. parse_B [Option 110 (Some ''x'')] (add_flags_B ARGP_NO_EXIT caller_B, initial) =
      Returned True s' log) \<and>
   flags_A caller_A AND ARGP_NO_ERRS = 0 \<and> flags_A caller_A AND ARGP_NO_EXIT = 0 \<and>
   flags_B caller_B AND ARGP_NO_ERRS = 0 \<and> flags_B caller_B AND ARGP_NO_EXIT = 0 \<and>
   option_keys_free [Option 110 (Some ''x''), Argument ''a'', Argument ''b''] \<and>
   \<not> options_ok_A (convert_A caller_A)
       (schedule (flags_A caller_A) [Option 110 (Some ''x''), Argument ''a'', Argument ''b'']) initial \<and>
   parse_A [Option 110 (Some ''x''), Argument ''a'', Argument ''b''] (caller_A, initial) =
     Exited argp_err_exit_status \<and>
   recognized (schedule (flags_A caller_A) [Argument ''a'']) \<and>
   options_ok_A (convert_A caller_A) (schedule (flags_A caller_A) [Argument ''a'']) initial \<and>
   length (positional (schedule (flags_A caller_A) [Argument ''a''])) \<noteq>
     unat (expected_argument_count_A caller_A) \<and>
   parse_A [Argument ''a''] (caller_A, initial) = Exited 1 \<and>
   parse_B [Argument ''a''] (caller_B, initial) = Exited argp_err_exit_status"
proof -
  let ?P = "add_flags_A ARGP_NO_EXIT caller_A"
  let ?Q = "add_flags_B ARGP_NO_EXIT caller_B"
  let ?R = "add_option_bool_B (option_count\<lparr>opt_key := 110\<rparr>) reject_A (parser_B 2)"
  let ?nx = "[Option 110 (Some ''x'')]"
  let ?nxab = "[Option 110 (Some ''x''), Argument ''a'', Argument ''b'']"
  let ?a = "[Argument ''a'']"
  have cv: "convert_A ?P = [110 \<mapsto> count_A, 108 \<mapsto> numbers_A]"
    "convert_B ?Q = [110 \<mapsto> count_B, 108 \<mapsto> numbers_B]"
    by (simp_all add: add_flags_A_def add_flags_B_def caller_A_convert caller_B_convert)
  have fx: "flags_A ?P = ARGP_NO_EXIT" "flags_B ?Q = ARGP_NO_EXIT"
    "expected_argument_count_A ?P = 2" "expected_argument_count_B ?Q = 2"
    "arguments_A ?P = []" "arguments_B ?Q = []"
    by (simp_all add: add_flags_A_def add_flags_B_def caller_A_fields caller_B_fields)
  have k: "(110::int) \<noteq> ARGP_KEY_INIT" "(110::int) \<noteq> ARGP_KEY_ARG" "(110::int) \<noteq> ARGP_KEY_END"
    "(110::int) \<noteq> ARGP_KEY_ERROR"
    by (simp_all add: key_defs)
  have r: "reserved_unregistered_A (convert_A ?P)" "reserved_unregistered_B (convert_B ?Q)"
    by (simp_all add: cv reserved_unregistered_A_def reserved_unregistered_B_def key_defs)
  have ce: "convert_A ?P ARGP_KEY_END = None" "convert_A ?P 110 = Some count_A"
    "convert_B ?Q 110 = Some count_B"
    by (simp_all add: cv ARGP_KEY_END_def)
  have kf: "option_keys_free ?nx" "option_keys_free ?nxab" "option_keys_free ?a"
    by (simp_all add: lifecycle_key_def key_defs)
  have S: "schedule ARGP_NO_EXIT ?nx = ?nx" "schedule 0 ?nxab = ?nxab" "schedule 0 ?a = ?a"
    by (simp_all add: schedule_no_exit schedule_default is_Argument_def)
  have oa: "\<not> options_ok_A (convert_A ?P) ?nx initial"
    by (simp add: cv count_A_x)
  have ob: "\<not> options_ok_B ARGP_NO_EXIT (convert_B ?Q) ?nx initial"
    by (simp add: cv count_B_x)
  have oc: "\<not> options_ok_A (convert_A caller_A) ?nxab initial"
    by (simp add: caller_A_convert count_A_x)
  have od: "recognized ?a" "options_ok_A (convert_A caller_A) ?a initial"
    "options_ok_B 0 (convert_B caller_B) ?a initial" "length (positional ?a) = 1"
    by simp_all
  have w: "(2 :: 64 word) \<noteq> - 1" "unat (2 :: 64 word) = 2"
    by simp_all
  have rj: "\<not> fst (reject_A (Some ''x'') initial)"
    by (simp add: reject_A_def)
  note t = failure_reporting [where p = ?P and key = 110 and cv = count_A and arg = "Some ''x''"
      and d = initial and str = "''x''" and err = Invalid_argument and x = "0 :: 32 word"
      and custom = reject_A and e = initial
      and opt = option_count and n = 2 and q = ?Q and cw = count_B and toks = ?nx]
  note u = failure_reporting [where p = ?P and key = 110 and cv = count_A and arg = None
      and d = initial and str = "''x''" and err = Invalid_argument and x = "0 :: 32 word"
      and custom = reject_A and e = initial
      and opt = option_count and n = 2 and q = ?Q and cw = count_B and toks = ?nx]
  note v = failure_reporting [where p = caller_A and key = 110 and cv = count_A and arg = None
      and d = initial and str = "''x''" and err = Invalid_argument and x = "0 :: 32 word"
      and custom = reject_A and e = initial
      and opt = option_count and n = 2 and q = caller_B and cw = count_B and toks = ?nxab]
  note z = failure_reporting [where p = caller_A and key = 110 and cv = count_A and arg = None
      and d = initial and str = "''x''" and err = Invalid_argument and x = "0 :: 32 word"
      and custom = reject_A and e = initial
      and opt = option_count and n = 2 and q = caller_B and cw = count_B and toks = ?a]
  have a1: "fst (parseoptions_A 110 (Some ''x'') (?P, initial)) = - 1 \<and>
      snd (snd (parseoptions_A 110 (Some ''x'') (?P, initial))) =
        [Argp_error (not_usable (Some ''x'') 110)]"
    using t ce count_A_x by simp
  have a2: "snd (snd (parseoptions_A ARGP_KEY_END None (?P, initial))) =
      [Argp_failure 1 0 ''too few arguments given'']"
    using u ce fx by simp
  have b1: "fst (parseoptions_B 110 (Some ''x'') (?R, initial)) = - 1"
    using t rj k by simp
  have b2: "fst (parseoptions_B 110 (Some ''x'') (?Q, initial)) = - 1"
    using t ce k count_B_x by simp
  have b3: "snd (snd (parseoptions_B ARGP_KEY_END None (?Q, initial))) =
      [Argp_error ''too few arguments given'']"
    using u fx by simp
  have p1: "\<exists>b s' log. parse_A ?nx (?P, initial) = Returned b s' log"
    using t fx flag_bits by simp
  have p2: "\<not> (\<exists>s' log. parse_A ?nx (?P, initial) = Returned True s' log)"
    using t r kf oa fx S flag_bits by simp
  have p3: "\<exists>b s' log. parse_B ?nx (?Q, initial) = Returned b s' log"
    using t fx flag_bits by simp
  have p4: "\<not> (\<exists>s' log. parse_B ?nx (?Q, initial) = Returned True s' log)"
    using t r kf ob fx S flag_bits by simp
  have x1: "parse_A ?nxab (caller_A, initial) = Exited argp_err_exit_status"
    using v caller_A_reserved kf oc S caller_A_fields flag_bits by simp
  have x2: "parse_A ?a (caller_A, initial) = Exited 1"
    using z caller_A_reserved kf od S caller_A_fields flag_bits w by simp
  have x3: "parse_B ?a (caller_B, initial) = Exited argp_err_exit_status"
    using z caller_B_reserved kf od S caller_B_fields flag_bits w by simp
  show ?thesis
    using ce count_A_x a1 a2 stol_x rj k b1 b2 b3 fx flag_bits r kf oa ob oc od S p1 p2 p3 p4
      x1 x2 x3 caller_A_fields caller_B_fields w
    by simp
qed

text \<open>
  C5 as stated fails. A rejected text leads to \<^verbatim>\<open>argp_error\<close>, which carries no exit
  status 1; with the caller's default flags the process then ends with status 64. The
  exit status 1 is what \<^verbatim>\<open>cxx_argp_parser.h\<close> passes to \<^verbatim>\<open>argp_failure\<close> on an arity
  mismatch, and with the default flags the process ends there with status 1 (64 in
  \<^verbatim>\<open>part_000\<close>) instead of \<^verbatim>\<open>parse\<close> returning \<^verbatim>\<open>false\<close>.
\<close>

theorem exit_status_one_is_for_arity:
  "snd (snd (parseoptions_A 110 (Some ''x'') (caller_A, initial))) =
     [Argp_error (not_usable (Some ''x'') 110)] \<and>
   snd (snd (parseoptions_A ARGP_KEY_END None (caller_A, initial))) =
     [Argp_failure 1 0 ''too few arguments given''] \<and>
   (case parse_A [Option 110 (Some ''x''), Argument ''a'', Argument ''b''] (caller_A, initial) of
      Exited code \<Rightarrow> Some code | Returned b s log \<Rightarrow> None) = Some 64 \<and>
   (case parse_A [Argument ''a''] (caller_A, initial) of
      Exited code \<Rightarrow> Some code | Returned b s log \<Rightarrow> None) = Some 1 \<and>
   snd (snd (parseoptions_B 110 (Some ''x'') (caller_B, initial))) =
     [Argp_error (''unable to interpret '' @ quoted ''x'' @ '' as a whole number, stol'')] \<and>
   snd (snd (parseoptions_B ARGP_KEY_END None (caller_B, initial))) =
     [Argp_error ''too few arguments given''] \<and>
   (case parse_B [Option 110 (Some ''x''), Argument ''a'', Argument ''b''] (caller_B, initial) of
      Exited code \<Rightarrow> Some code | Returned b s log \<Rightarrow> None) = Some 64 \<and>
   (case parse_B [Argument ''a''] (caller_B, initial) of
      Exited code \<Rightarrow> Some code | Returned b s log \<Rightarrow> None) = Some 64"
  by code_simp

text \<open>
  C6. With \<^verbatim>\<open>ARGP_NO_ERRS\<close> set in the flags before the call, \<^verbatim>\<open>parse\<close> returns
  \<^verbatim>\<open>true\<close> for every command line (options the engine does not know included), every
  registry (converters that fail included) and every expected count: neither the engine
  nor a call to it ends the process there, and the driver returns \<^verbatim>\<open>true\<close> before it
  looks at the engine's status or at the number of positional arguments. Both editions.
\<close>

theorem suppress_all_errors:
  "(flags_A p AND ARGP_NO_ERRS \<noteq> 0 \<longrightarrow> (\<exists>s' log. parse_A toks (p, d) = Returned True s' log)) \<and>
   (flags_B q AND ARGP_NO_ERRS \<noteq> 0 \<longrightarrow> (\<exists>s' log. parse_B toks' (q, e) = Returned True s' log))"
proof (intro conjI impI)
  assume f: "flags_A p AND ARGP_NO_ERRS \<noteq> 0"
  obtain st s' l where r: "argp_parse parseoptions_A (flags_A p) toks (p, d) = Returned st s' l"
    using argp_parse_quiet [of "flags_A p" parseoptions_A toks "(p, d)"] f by blast
  have "flags_A (fst s') = flags_A p"
    using argp_parse_A_keeps [OF r] by simp
  then show "\<exists>s' log. parse_A toks (p, d) = Returned True s' log"
    using f r by (simp add: parse_A_def)
next
  assume f: "flags_B q AND ARGP_NO_ERRS \<noteq> 0"
  obtain st s' l where r: "argp_parse parseoptions_B (flags_B q) toks' (q, e) = Returned st s' l"
    using argp_parse_quiet [of "flags_B q" parseoptions_B toks' "(q, e)"] f by blast
  have "flags_B (fst s') = flags_B q"
    using argp_parse_B_keeps [OF r] by simp
  then show "\<exists>s' log. parse_B toks' (q, e) = Returned True s' log"
    using f r by (simp add: parse_B_def)
qed

text \<open>
  The caller with the flag added, a text that is no number for \<^verbatim>\<open>-n\<close>, an option the
  engine does not know and one positional argument where two are expected: \<^verbatim>\<open>parse\<close>
  returns \<^verbatim>\<open>true\<close>.
\<close>

theorem suppress_all_errors_witness:
  "flags_A (add_flags_A ARGP_NO_ERRS caller_A) AND ARGP_NO_ERRS \<noteq> 0 \<and>
   (\<exists>s' log. parse_A [Option 110 (Some ''x''), Argument ''a'', Unrecognized]
      (add_flags_A ARGP_NO_ERRS caller_A, initial) = Returned True s' log) \<and>
   flags_B (add_flags_B ARGP_NO_ERRS caller_B) AND ARGP_NO_ERRS \<noteq> 0 \<and>
   (\<exists>s' log. parse_B [Option 110 (Some ''x''), Argument ''a'', Unrecognized]
      (add_flags_B ARGP_NO_ERRS caller_B, initial) = Returned True s' log)"
proof -
  have a: "flags_A (add_flags_A ARGP_NO_ERRS caller_A) AND ARGP_NO_ERRS \<noteq> 0"
    by (simp add: add_flags_A_def caller_A_fields ARGP_NO_ERRS_def)
  have b: "flags_B (add_flags_B ARGP_NO_ERRS caller_B) AND ARGP_NO_ERRS \<noteq> 0"
    by (simp add: add_flags_B_def caller_B_fields ARGP_NO_ERRS_def)
  show ?thesis
    using a b
      suppress_all_errors [of "add_flags_A ARGP_NO_ERRS caller_A"
        "[Option 110 (Some ''x''), Argument ''a'', Unrecognized]" initial
        "add_flags_B ARGP_NO_ERRS caller_B"
        "[Option 110 (Some ''x''), Argument ''a'', Unrecognized]" initial]
    by blast
qed

text \<open>
  C7 (as amended). The init event empties the positional arguments, and what a parse
  invocation returns and leaves behind does not depend on the positional arguments or
  the counters an earlier invocation left: started from a parser whose \<^verbatim>\<open>arguments_\<close>
  and \<^verbatim>\<open>counter_\<close> are replaced by anything, \<^verbatim>\<open>parse\<close> of \<^verbatim>\<open>cxx_argp_parser.h\<close>
  gives the same result, positional arguments, destinations and engine calls (the
  counters themselves are not reset and differ), provided \<^verbatim>\<open>ARGP_KEY_INIT\<close> is not a
  registered key; \<^verbatim>\<open>parse\<close> of \<^verbatim>\<open>part_000\<close>, which has no counters, gives the same
  run altogether.
\<close>

theorem parse_independent_of_earlier_invocation:
  "(convert_A p ARGP_KEY_INIT = None \<longrightarrow>
      arguments_A (fst (fst (snd (parseoptions_A ARGP_KEY_INIT arg (p, d))))) = [] \<and>
      observe_A (parse_A toks (p\<lparr>arguments_A := as, counter_A := cn\<rparr>, d)) = observe_A (parse_A toks (p, d))) \<and>
   arguments_B (fst (fst (snd (parseoptions_B ARGP_KEY_INIT arg (q, e))))) = [] \<and>
   parse_B toks' (q\<lparr>arguments_B := as\<rparr>, e) = parse_B toks' (q, e)"
proof (intro conjI impI)
  assume i: "convert_A p ARGP_KEY_INIT = None"
  show "arguments_A (fst (fst (snd (parseoptions_A ARGP_KEY_INIT arg (p, d))))) = []"
    using i by (simp add: parseoptions_A_init)
  have "observe_A (parse_A toks (p\<lparr>arguments_A := as, counter_A := cn\<rparr>, d)) =
        observe_A (parse_A toks (p\<lparr>arguments_A := as\<rparr>, d))"
    by (rule parse_A_forget) (simp add: forget_counter_def)
  also have "parse_A toks (p\<lparr>arguments_A := as\<rparr>, d) = parse_A toks (p, d)"
    using i by (simp add: parse_A_def argp_parse_A_arguments)
  finally show "observe_A (parse_A toks (p\<lparr>arguments_A := as, counter_A := cn\<rparr>, d)) =
      observe_A (parse_A toks (p, d))" .
next
  show "arguments_B (fst (fst (snd (parseoptions_B ARGP_KEY_INIT arg (q, e))))) = []"
    by (simp add: parseoptions_B_init)
  show "parse_B toks' (q\<lparr>arguments_B := as\<rparr>, e) = parse_B toks' (q, e)"
    by (simp add: parse_B_def argp_parse_B_arguments)
qed

text \<open>
  The caller, with a positional argument and a count of 7 left over from before: the
  run of \<^verbatim>\<open>-n 5 a b\<close> is the one of the untouched caller.
\<close>

theorem parse_independent_of_earlier_invocation_witness:
  "convert_A caller_A ARGP_KEY_INIT = None \<and>
   arguments_A (fst (fst (snd (parseoptions_A ARGP_KEY_INIT None
     (caller_A\<lparr>arguments_A := [''old'']\<rparr>, initial))))) = [] \<and>
   observe_A (parse_A [Option 110 (Some ''5''), Argument ''a'', Argument ''b'']
     (caller_A\<lparr>arguments_A := [''old''], counter_A := [110 \<mapsto> 7]\<rparr>, initial)) =
   observe_A (parse_A [Option 110 (Some ''5''), Argument ''a'', Argument ''b''] (caller_A, initial))"
proof -
  have i: "convert_A caller_A ARGP_KEY_INIT = None"
    by (simp add: caller_A_convert ARGP_KEY_INIT_def)
  have j: "convert_A (caller_A\<lparr>arguments_A := [''old'']\<rparr>) ARGP_KEY_INIT = None"
    by (simp add: caller_A_convert ARGP_KEY_INIT_def)
  show ?thesis
    using i j
      parse_independent_of_earlier_invocation [where p = caller_A and d = initial
        and toks = "[Option 110 (Some ''5''), Argument ''a'', Argument ''b'']" and as = "[''old'']"
        and cn = "[110 \<mapsto> 7]" and arg = None and q = caller_B and e = initial and toks' = "[]"]
      parse_independent_of_earlier_invocation [where p = "caller_A\<lparr>arguments_A := [''old'']\<rparr>"
        and d = initial and toks = "[]" and as = "[]"
        and cn = "Map.empty" and arg = None and q = caller_B and e = initial and toks' = "[]"]
    by simp
qed

text \<open>
  C7 as stated fails in \<^verbatim>\<open>cxx_argp_parser.h\<close>: \<^verbatim>\<open>counter_\<close> is dispatcher state that
  no event resets. Parsing \<^verbatim>\<open>-n 5 a b\<close> twice on the same instance leaves the counter
  of \<^verbatim>\<open>'n'\<close> at 0 after registration, 1 after the first and 2 after the second
  invocation.
\<close>

theorem counter_survives_across_invocations:
  "(case parse_A [Option 110 (Some ''5''), Argument ''a'', Argument ''b''] (caller_A, initial) of
      Exited code \<Rightarrow> None
    | Returned b s log \<Rightarrow>
        (case parse_A [Option 110 (Some ''5''), Argument ''a'', Argument ''b''] s of
           Exited code \<Rightarrow> None
         | Returned b' s' log' \<Rightarrow>
             Some (counter_A caller_A 110, counter_A (fst s) 110, counter_A (fst s') 110)))
   = Some (Some 0, Some 1, Some 2)"
  by code_simp

text \<open>
  C8. An event whose key has no entry in the registry and is none of the reserved keys
  \<^verbatim>\<open>ARGP_KEY_INIT\<close>, \<^verbatim>\<open>ARGP_KEY_ARG\<close>, \<^verbatim>\<open>ARGP_KEY_END\<close>, \<^verbatim>\<open>ARGP_KEY_ERROR\<close> is
  ignored: the callback returns 0, calls neither \<^verbatim>\<open>argp_error\<close> nor
  \<^verbatim>\<open>argp_failure\<close>, and leaves the parser (its positional arguments with it) and every
  destination as they were. Both editions.
\<close>

theorem unknown_key_ignored:
  "(key \<noteq> ARGP_KEY_INIT \<and> key \<noteq> ARGP_KEY_ARG \<and> key \<noteq> ARGP_KEY_END \<and> key \<noteq> ARGP_KEY_ERROR \<and>
    convert_A p key = None \<longrightarrow> parseoptions_A key arg (p, d) = (0, (p, d), [])) \<and>
   (key \<noteq> ARGP_KEY_INIT \<and> key \<noteq> ARGP_KEY_ARG \<and> key \<noteq> ARGP_KEY_END \<and> key \<noteq> ARGP_KEY_ERROR \<and>
    convert_B q key = None \<longrightarrow> parseoptions_B key arg (q, e) = (0, (q, e), []))"
  by (simp add: parseoptions_A_def parseoptions_B_def)

text \<open>The caller registers \<^verbatim>\<open>'n'\<close> and \<^verbatim>\<open>'l'\<close>; the key \<^verbatim>\<open>'x'\<close> (120) is unknown to it.\<close>

theorem unknown_key_ignored_witness:
  "(120::int) \<noteq> ARGP_KEY_INIT \<and> (120::int) \<noteq> ARGP_KEY_ARG \<and> (120::int) \<noteq> ARGP_KEY_END \<and>
   (120::int) \<noteq> ARGP_KEY_ERROR \<and> convert_A caller_A 120 = None \<and> convert_B caller_B 120 = None \<and>
   parseoptions_A 120 (Some ''v'') (caller_A, initial) = (0, (caller_A, initial), []) \<and>
   parseoptions_B 120 (Some ''v'') (caller_B, initial) = (0, (caller_B, initial), [])"
  using unknown_key_ignored [of 120 caller_A "Some ''v''" initial caller_B initial]
  by (simp add: ARGP_KEY_INIT_def ARGP_KEY_ARG_def ARGP_KEY_END_def ARGP_KEY_ERROR_def
      caller_A_convert caller_B_convert)

text \<open>
  C9. \<^verbatim>\<open>arguments()\<close> returns the same sequence however often it is called, as long as
  no \<^verbatim>\<open>parse\<close> comes in between: any run of other member calls (\<^verbatim>\<open>add_option\<close>,
  \<^verbatim>\<open>add_flags\<close>, \<^verbatim>\<open>remove_flags\<close>, \<^verbatim>\<open>arguments\<close> itself) leaves its result as it was.
  On a parser that was just constructed the result is the empty sequence. Both editions.
\<close>

theorem arguments_repeatable:
  "fst (arguments_fn_A (fold member_A cs p)) = fst (arguments_fn_A p) \<and>
   fst (arguments_fn_A (fold member_A cs (parser_A n))) = [] \<and>
   fst (arguments_fn_B (fold member_B cs' q)) = fst (arguments_fn_B q) \<and>
   fst (arguments_fn_B (fold member_B cs' (parser_B n))) = []"
  by (simp add: arguments_fn_A_def arguments_fn_B_def fold_member_A_arguments
      fold_member_B_arguments parser_A_def parser_B_def)

text \<open>
  C10. The sequence converters only append. A conversion into a destination that already
  holds \<open>x\<close> gives the same flag as a conversion into an empty destination and leaves
  \<open>x\<close> followed by the elements that conversion commits; so the earlier content (the
  caller's defaults, or what an earlier occurrence of the option appended) stays in front,
  in \<^verbatim>\<open>cxx_argp_parser.h\<close> for the arithmetic and the string overload, in
  \<^verbatim>\<open>part_000\<close> for every element converter.
\<close>

theorem vector_converters_only_append:
  "make_check_function_vector_A arg (x :: 'a::len word list) =
     (fst (make_check_function_vector_A arg ([] :: 'a word list)),
      x @ snd (make_check_function_vector_A arg [])) \<and>
   make_check_function_vector_string_A arg y =
     (True, y @ snd (make_check_function_vector_string_A arg [])) \<and>
   make_check_function_vector_B elem fresh key arg z =
     (fst (make_check_function_vector_B elem fresh key arg []),
      z @ fst (snd (make_check_function_vector_B elem fresh key arg [])),
      snd (snd (make_check_function_vector_B elem fresh key arg []))) \<and>
   prefix x (snd (make_check_function_vector_A arg x)) \<and>
   prefix y (snd (make_check_function_vector_string_A arg y)) \<and>
   prefix z (fst (snd (make_check_function_vector_B elem fresh key arg z)))"
proof -
  have a: "vector_loop_A arg x =
      (fst (vector_loop_A arg ([] :: 'a word list)), x @ snd (vector_loop_A arg []))"
    using vector_loop_A_append [of arg x "[]"] by (simp add: case_prod_beta)
  have s: "vector_string_loop_A arg y = y @ vector_string_loop_A arg []"
    using vector_string_loop_A_append [of arg y "[]"] by simp
  have b: "vector_loop_B elem fresh key arg arg z =
      (fst (vector_loop_B elem fresh key arg arg []),
       z @ fst (snd (vector_loop_B elem fresh key arg arg [])),
       snd (snd (vector_loop_B elem fresh key arg arg [])))"
    using vector_loop_B_append [of elem fresh key arg arg z "[]"] by (simp add: case_prod_beta)
  have pa: "prefix x (snd (vector_loop_A arg x))"
    by (subst a) simp
  have ps: "prefix y (vector_string_loop_A arg y)"
    by (subst s) simp
  have pb: "prefix z (fst (snd (vector_loop_B elem fresh key arg arg z)))"
    by (subst b) simp
  show ?thesis
    unfolding make_check_function_vector_A_def make_check_function_vector_string_A_def
      make_check_function_vector_B_def
    using a s b pa ps pb by simp
qed


end
